theory Spec2Isabelle
  imports Complex_Main "HOL-Library.Sublist" "HOL-Library.Char_ord"
begin

section \<open>JavaScript strings\<close>

text \<open>
  A JavaScript string is modelled as a \<^typ>\<open>string\<close>: a list of characters with codes
  0 to 255. HTTP header lines, which Node decodes as Latin-1, are exactly such strings;
  for decoded page bodies and URLs the model covers the texts whose code units are
  below 256.
\<close>

text \<open>
  White space as removed by \<^verbatim>\<open>String.prototype.trim\<close> and matched by \<^verbatim>\<open>\s\<close>: TAB, LF, VT,
  FF, CR, SPACE and NO-BREAK SPACE are the white-space and line-terminator code points
  below 256.
\<close>

definition isWhiteSpace :: "char \<Rightarrow> bool" where
  "isWhiteSpace c \<longleftrightarrow>
     c = CHR 0x09 \<or> c = CHR 0x0A \<or> c = CHR 0x0B \<or> c = CHR 0x0C \<or> c = CHR 0x0D \<or>
     c = CHR 0x20 \<or> c = CHR 0xA0"

definition trim :: "string \<Rightarrow> string" where
  "trim s = rev (dropWhile isWhiteSpace (rev (dropWhile isWhiteSpace s)))"

section \<open>Back-off delays\<close>

text \<open>
  \<^verbatim>\<open>Math.min(2000 * Math.pow(2, retryCount), 60000)\<close> in \<^verbatim>\<open>fetchText\<close> (utils.ts) and
  \<^verbatim>\<open>Math.min(5000 * Math.pow(2, attempt), 120000)\<close> in \<^verbatim>\<open>downloadFile\<close> (download.ts),
  in milliseconds. The counters are non-negative integers; the delays are JavaScript
  numbers, modelled as reals.
\<close>

definition fetchTextRateLimitDelay :: "nat \<Rightarrow> real" where
  "fetchTextRateLimitDelay retryCount = min (2000 * 2 ^ retryCount) 60000"

definition downloadRateLimitDelay :: "nat \<Rightarrow> real" where
  "downloadRateLimitDelay attempt = min (5000 * 2 ^ attempt) 120000"

section \<open>Cookie jar (cookies.ts)\<close>

text \<open>
  \<^verbatim>\<open>interface CookieJar { [key: string]: string }\<close>: a dictionary from cookie names to
  values. The function mutates the jar in place; the model returns the new jar.
\<close>

type_synonym CookieJar = "string \<rightharpoonup> string"

text \<open>
  For one Set-Cookie line \<^verbatim>\<open>cookie\<close>: \<^verbatim>\<open>parts = cookie.split(";")\<close> always has a first
  element, the text before the first semicolon; \<^verbatim>\<open>[nameValue] = parts[0].split("=")\<close> is
  the text of \<^verbatim>\<open>parts[0]\<close> before its first equals sign;
  \<^verbatim>\<open>value = parts[0].substring(nameValue.length + 1)\<close>.
\<close>

definition cookiePart0 :: "string \<Rightarrow> string" where
  "cookiePart0 cookie = takeWhile (\<lambda>c. c \<noteq> CHR '';'') cookie"

definition cookieNameValue :: "string \<Rightarrow> string" where
  "cookieNameValue cookie = takeWhile (\<lambda>c. c \<noteq> CHR ''='') (cookiePart0 cookie)"

definition cookieValue :: "string \<Rightarrow> string" where
  "cookieValue cookie = drop (length (cookieNameValue cookie) + 1) (cookiePart0 cookie)"

text \<open>
  The assignment \<^verbatim>\<open>jar[name] = value\<close>. The jar is an ordinary object, made by the literal
  \<^verbatim>\<open>{}\<close>, and the map holds its own properties. For every name but one the assignment
  sets the own property. \<^verbatim>\<open>__proto__\<close> is an accessor inherited from
  \<^verbatim>\<open>Object.prototype\<close>: unless the jar has an own property of that name, the assignment
  calls the inherited setter, which ignores a string, and the jar stays as it is.
\<close>

definition assignProperty :: "CookieJar \<Rightarrow> string \<Rightarrow> string \<Rightarrow> CookieJar" where
  "assignProperty jar name value =
     (if name = ''__proto__'' \<and> jar name = None then jar else jar(name \<mapsto> value))"

text \<open>The body of the \<^verbatim>\<open>for\<close> loop: both strings must be non-empty (truthy).\<close>

definition updateCookie :: "CookieJar \<Rightarrow> string \<Rightarrow> CookieJar" where
  "updateCookie jar cookie =
     (if cookieNameValue cookie \<noteq> [] \<and> cookieValue cookie \<noteq> []
      then assignProperty jar (trim (cookieNameValue cookie)) (trim (cookieValue cookie))
      else jar)"

fun updateCookiesLoop :: "CookieJar \<Rightarrow> string list \<Rightarrow> CookieJar" where
  "updateCookiesLoop jar [] = jar"
| "updateCookiesLoop jar (cookie # rest) = updateCookiesLoop (updateCookie jar cookie) rest"

text \<open>\<^verbatim>\<open>setCookieHeaders: string[] | undefined\<close>; \<open>None\<close> is \<^verbatim>\<open>undefined\<close>.\<close>

definition updateCookiesFromHeaders :: "CookieJar \<Rightarrow> string list option \<Rightarrow> CookieJar" where
  "updateCookiesFromHeaders jar setCookieHeaders =
     (case setCookieHeaders of None \<Rightarrow> jar | Some cookies \<Rightarrow> updateCookiesLoop jar cookies)"

section \<open>Regular expressions\<close>

text \<open>
  The source matches texts against regular-expression literals. Each literal is transcribed
  term by term with backtracking matchers in continuation-passing style, the way the
  ECMAScript specification defines matching: a matcher takes the continuation that
  matches the rest of the pattern and the remaining input, and answers with the
  continuation's result on the first way of matching that the continuation accepts.
\<close>

text \<open>Character classes \<^verbatim>\<open>[0-9]\<close>, \<^verbatim>\<open>[A-Z]\<close>, \<^verbatim>\<open>[a-z]\<close>.\<close>

definition isDigit :: "char \<Rightarrow> bool" where
  "isDigit c \<longleftrightarrow> CHR ''0'' \<le> c \<and> c \<le> CHR ''9''"

definition isUpper :: "char \<Rightarrow> bool" where
  "isUpper c \<longleftrightarrow> CHR ''A'' \<le> c \<and> c \<le> CHR ''Z''"

definition isLower :: "char \<Rightarrow> bool" where
  "isLower c \<longleftrightarrow> CHR ''a'' \<le> c \<and> c \<le> CHR ''z''"

text \<open>A literal piece of a pattern.\<close>

definition lit :: "string \<Rightarrow> (string \<Rightarrow> 'r option) \<Rightarrow> string \<Rightarrow> 'r option" where
  "lit p k s = (if prefix p s then k (drop (length p) s) else None)"

text \<open>
  A captured greedy repetition \<^verbatim>\<open>([cls]{n,})\<close> (\<^verbatim>\<open>+\<close> is \<open>n = 1\<close>, \<^verbatim>\<open>*\<close> is \<open>n = 0\<close>):
  take as many characters of the class as possible, and give characters back one by one
  as long as the continuation fails. \<open>acc\<close> is the text taken so far; the continuation
  gets the captured text and the remaining input.
\<close>

fun greedy ::
  "(char \<Rightarrow> bool) \<Rightarrow> nat \<Rightarrow> (string \<Rightarrow> string \<Rightarrow> 'r option) \<Rightarrow> string \<Rightarrow> string \<Rightarrow> 'r option"
where
  "greedy cls n k acc [] = (if n \<le> length acc then k acc [] else None)"
| "greedy cls n k acc (c # cs) =
     (case (if cls c then greedy cls n k (acc @ [c]) cs else None) of
        Some r \<Rightarrow> Some r
      | None \<Rightarrow> if n \<le> length acc then k acc (c # cs) else None)"

text \<open>
  A captured lazy repetition \<^verbatim>\<open>([cls]*?)\<close>: try the continuation first, and take one more
  character of the class each time it fails.
\<close>

fun lazy ::
  "(char \<Rightarrow> bool) \<Rightarrow> (string \<Rightarrow> string \<Rightarrow> 'r option) \<Rightarrow> string \<Rightarrow> string \<Rightarrow> 'r option"
where
  "lazy cls k acc [] = k acc []"
| "lazy cls k acc (c # cs) =
     (case k acc (c # cs) of
        Some r \<Rightarrow> Some r
      | None \<Rightarrow> if cls c then lazy cls k (acc @ [c]) cs else None)"

text \<open>
  \<^verbatim>\<open>String.prototype.match\<close> and \<^verbatim>\<open>RegExp.prototype.exec\<close> try the pattern at every start
  position from left to right, the end of the text included, and stop at the first
  position where it matches.
\<close>

fun search :: "(string \<Rightarrow> 'r option) \<Rightarrow> string \<Rightarrow> 'r option" where
  "search m [] = m []"
| "search m (c # cs) = (case m (c # cs) of Some r \<Rightarrow> Some r | None \<Rightarrow> search m cs)"

section \<open>Confirmation token (download.ts)\<close>

text \<open>The class \<^verbatim>\<open>[0-9A-Za-z_]\<close> of both patterns.\<close>

definition isTokenChar :: "char \<Rightarrow> bool" where
  "isTokenChar c \<longleftrightarrow> isDigit c \<or> isUpper c \<or> isLower c \<or> c = CHR ''_''"

text \<open>\<^verbatim>\<open>/confirm=([0-9A-Za-z_]+)&amp;id=/\<close>, tried at one position.\<close>

definition confirmLinkMatcher :: "string \<Rightarrow> string option" where
  "confirmLinkMatcher =
     lit ''confirm='' (greedy isTokenChar 1 (\<lambda>tok. lit ''&amp;id='' (\<lambda>_. Some tok)) [])"

text \<open>\<^verbatim>\<open>/name="confirm"\s+value="([0-9A-Za-z_]+)"/\<close>, tried at one position.\<close>

definition confirmInputMatcher :: "string \<Rightarrow> string option" where
  "confirmInputMatcher =
     lit ''name=\"confirm\"'' (greedy isWhiteSpace 1 (\<lambda>_.
       lit ''value=\"'' (greedy isTokenChar 1 (\<lambda>tok. lit ''\"'' (\<lambda>_. Some tok)) [])) [])"

text \<open>\<open>None\<close> is \<^verbatim>\<open>null\<close>; the result of a match is its first capture group.\<close>

definition extractConfirmToken :: "string \<Rightarrow> string option" where
  "extractConfirmToken html =
     (case search confirmLinkMatcher html of
        Some tok \<Rightarrow> Some tok
      | None \<Rightarrow>
          (case search confirmInputMatcher html of
             Some tok \<Rightarrow> Some tok
           | None \<Rightarrow> None))"

text \<open>
  The two patterns in the words of the specification, for stating what the extractor
  finds: the link pattern \<^verbatim>\<open>confirm=<token>&amp;id=\<close> stands in \<open>html\<close> right after \<open>pre\<close>,
  and the form-field pattern \<^verbatim>\<open>name="confirm" value="<token>"\<close> (white space between the
  attributes) stands in \<open>html\<close> right after \<open>pre\<close>.
\<close>

definition linkPatternAt :: "string \<Rightarrow> string \<Rightarrow> string \<Rightarrow> bool" where
  "linkPatternAt html pre tok \<longleftrightarrow>
     tok \<noteq> [] \<and> (\<forall>c \<in> set tok. isTokenChar c)
     \<and> (\<exists>post. html = pre @ ''confirm='' @ tok @ ''&amp;id='' @ post)"

definition formPatternAt :: "string \<Rightarrow> string \<Rightarrow> string \<Rightarrow> bool" where
  "formPatternAt html pre tok \<longleftrightarrow>
     tok \<noteq> [] \<and> (\<forall>c \<in> set tok. isTokenChar c)
     \<and> (\<exists>ws post. ws \<noteq> [] \<and> (\<forall>c \<in> set ws. isWhiteSpace c)
           \<and> html = pre @ ''name=\"confirm\"'' @ ws @ ''value=\"'' @ tok @ ''\"'' @ post)"

section \<open>Unique file names (utils.ts)\<close>

text \<open>
  The decimal numeral of a counter, as the template literal \<^verbatim>\<open>${counter}\<close> prints it.
  The counter is a JavaScript number that starts at 1 and grows by 1: it is exact, and
  printed in plain digits, far beyond the number of files a directory can hold.
\<close>

definition digitChar :: "nat \<Rightarrow> char" where
  "digitChar d = char_of (48 + d)"

function decimal :: "nat \<Rightarrow> string" where
  "decimal n = (if n < 10 then [digitChar n] else decimal (n div 10) @ [digitChar (n mod 10)])"
  by pat_completeness auto
termination
  by (relation "measure (\<lambda>n. n)") auto

declare decimal.simps [simp del]

text \<open>
  Node's \<^verbatim>\<open>path.extname\<close> and \<^verbatim>\<open>path.basename\<close> (POSIX flavour) look at the last component of
  a path, trailing slashes dropped. The extension starts at the last dot of the
  component; there is none when the component has no dot, when its only dot is its first
  character, or when the component is \<^verbatim>\<open>..\<close>.
\<close>

definition lastComponent :: "string \<Rightarrow> string" where
  "lastComponent path =
     rev (takeWhile (\<lambda>c. c \<noteq> CHR ''/'') (dropWhile (\<lambda>c. c = CHR ''/'') (rev path)))"







section \<open>Resource references (parser.ts)\<close>

text \<open>\<^verbatim>\<open>String.prototype.includes\<close>: the text \<open>p\<close> stands somewhere in \<open>s\<close>.\<close>

fun includesStr :: "string \<Rightarrow> string \<Rightarrow> bool" where
  "includesStr [] p = (p = [])"
| "includesStr (c # cs) p = (prefix p (c # cs) \<or> includesStr cs p)"

text \<open>
  An alternation of literals \<^verbatim>\<open>(w1|w2|...)\<close> with its capture: the alternatives are tried
  in order, each with the rest of the pattern.
\<close>

fun alts :: "string list \<Rightarrow> (string \<Rightarrow> string \<Rightarrow> 'r option) \<Rightarrow> string \<Rightarrow> 'r option" where
  "alts [] k s = None"
| "alts (w # ws) k s = (case lit w (k w) s of Some r \<Rightarrow> Some r | None \<Rightarrow> alts ws k s)"

text \<open>\<^verbatim>\<open>interface ParsedUrl { id: string; type: ...; resourceKey?: string }\<close>\<close>

datatype ResourceType = File | Folder | Document | Spreadsheet | Presentation | Drawing | Unknown

record ParsedUrl =
  pu_id :: string
  pu_type :: ResourceType
  pu_resourceKey :: "string option"

text \<open>
  The WHATWG \<^verbatim>\<open>URL\<close> object of the platform, as far as the parser reads it: host name, path
  and query parameters in their order. The constructor \<^verbatim>\<open>new URL(url)\<close> is a parameter
  \<open>newURL\<close> of the functions that call it; \<open>None\<close> is the \<^verbatim>\<open>TypeError\<close> it throws on a
  text that is not a URL.
\<close>

record URL =
  hostname :: string
  pathname :: string
  searchParams :: "(string \<times> string) list"

text \<open>\<^verbatim>\<open>urlObj.searchParams.get(name)\<close>: the value of the first parameter of that name.\<close>

definition searchParamsGet :: "URL \<Rightarrow> string \<Rightarrow> string option" where
  "searchParamsGet urlObj name = map_of (searchParams urlObj) name"

text \<open>\<^verbatim>\<open>v || undefined\<close> for a string or \<^verbatim>\<open>null\<close>: the empty string is falsy.\<close>

definition orUndefined :: "string option \<Rightarrow> string option" where
  "orUndefined v = (case v of None \<Rightarrow> None | Some s \<Rightarrow> if s = [] then None else Some s)"

text \<open>The class \<^verbatim>\<open>[a-zA-Z0-9_-]\<close> of identifiers.\<close>

definition isIdChar :: "char \<Rightarrow> bool" where
  "isIdChar c \<longleftrightarrow> isLower c \<or> isUpper c \<or> isDigit c \<or> c = CHR ''_'' \<or> c = CHR ''-''"

text \<open>\<^verbatim>\<open>/\/file\/d\/([a-zA-Z0-9_-]+)/\<close>\<close>

definition fileIdMatcher :: "string \<Rightarrow> string option" where
  "fileIdMatcher = lit ''/file/d/'' (greedy isIdChar 1 (\<lambda>i _. Some i) [])"

text \<open>\<^verbatim>\<open>/\/drive\/folders\/([a-zA-Z0-9_-]+)/\<close>\<close>

definition folderIdMatcher :: "string \<Rightarrow> string option" where
  "folderIdMatcher = lit ''/drive/folders/'' (greedy isIdChar 1 (\<lambda>i _. Some i) [])"

text \<open>\<^verbatim>\<open>/\/(document|spreadsheets|presentation|drawings)\/d\/([a-zA-Z0-9_-]+)/\<close>\<close>

definition docIdMatcher :: "string \<Rightarrow> (string \<times> string) option" where
  "docIdMatcher =
     lit ''/'' (alts [''document'', ''spreadsheets'', ''presentation'', ''drawings'']
       (\<lambda>w. lit ''/d/'' (greedy isIdChar 1 (\<lambda>i _. Some (w, i)) [])))"

text \<open>\<^verbatim>\<open>/([a-zA-Z0-9_-]{25,})/\<close>\<close>

definition fuzzyMatcher :: "string \<Rightarrow> string option" where
  "fuzzyMatcher = greedy isIdChar 25 (\<lambda>i _. Some i) []"

text \<open>\<^verbatim>\<open>typeMap[docMatch[1]] || "unknown"\<close>\<close>

definition typeMap :: "string \<rightharpoonup> ResourceType" where
  "typeMap = map_of [(''document'', Document), (''spreadsheets'', Spreadsheet),
                     (''presentation'', Presentation), (''drawings'', Drawing)]"

text \<open>
  The body of the \<^verbatim>\<open>try\<close> block for a URL that parsed. Each \<^verbatim>\<open>if\<close> of the source either
  returns or falls through to the next one; \<open>None\<close> is falling out of the block.
\<close>

definition parseUrlObject :: "URL \<Rightarrow> string \<Rightarrow> ParsedUrl option" where
  "parseUrlObject urlObj url =
     (let resourceKey = orUndefined (searchParamsGet urlObj ''resourcekey'') in
      case (if includesStr (pathname urlObj) ''/file/d/''
            then search fileIdMatcher (pathname urlObj) else None) of
        Some i \<Rightarrow> Some \<lparr>pu_id = i, pu_type = File, pu_resourceKey = resourceKey\<rparr>
      | None \<Rightarrow>
     (case (if includesStr (pathname urlObj) ''/drive/folders/''
            then search folderIdMatcher (pathname urlObj) else None) of
        Some i \<Rightarrow> Some \<lparr>pu_id = i, pu_type = Folder, pu_resourceKey = resourceKey\<rparr>
      | None \<Rightarrow>
     (case (if includesStr (hostname urlObj) ''docs.google.com''
            then search docIdMatcher (pathname urlObj) else None) of
        Some (w, i) \<Rightarrow>
          Some \<lparr>pu_id = i,
                pu_type = (case typeMap w of Some t \<Rightarrow> t | None \<Rightarrow> Unknown),
                pu_resourceKey = resourceKey\<rparr>
      | None \<Rightarrow>
     (case (if includesStr (pathname urlObj) ''/uc''
            then orUndefined (searchParamsGet urlObj ''id'') else None) of
        Some ucId \<Rightarrow> Some \<lparr>pu_id = ucId, pu_type = File, pu_resourceKey = resourceKey\<rparr>
      | None \<Rightarrow>
     (case orUndefined (searchParamsGet urlObj ''id'') of
        Some idParam \<Rightarrow> Some \<lparr>pu_id = idParam, pu_type = File, pu_resourceKey = resourceKey\<rparr>
      | None \<Rightarrow>
     (case (if includesStr url ''drive.google.com'' then search fuzzyMatcher url else None) of
        Some i \<Rightarrow> Some \<lparr>pu_id = i, pu_type = File, pu_resourceKey = resourceKey\<rparr>
      | None \<Rightarrow> None))))))"

text \<open>
  \<^verbatim>\<open>parseGoogleDriveUrl\<close>: the \<^verbatim>\<open>try\<close> block, and after it (the URL did not parse, or
  nothing in the block returned) the last resort, which sets no resource key.
\<close>

definition parseGoogleDriveUrl :: "(string \<Rightarrow> URL option) \<Rightarrow> string \<Rightarrow> ParsedUrl option" where
  "parseGoogleDriveUrl newURL url =
     (case (case newURL url of None \<Rightarrow> None | Some urlObj \<Rightarrow> parseUrlObject urlObj url) of
        Some parsed \<Rightarrow> Some parsed
      | None \<Rightarrow>
          (case search fuzzyMatcher url of
             Some i \<Rightarrow> Some \<lparr>pu_id = i, pu_type = File, pu_resourceKey = None\<rparr>
           | None \<Rightarrow> None))"

text \<open>
  The path patterns in the words of the specification: \<^verbatim>\<open>/file/d/<id>\<close>,
  \<^verbatim>\<open>/drive/folders/<id>\<close> and \<^verbatim>\<open>/<word>/d/<id>\<close> stand in \<open>path\<close> right after \<open>pre\<close>, where
  \<^verbatim>\<open><id>\<close> is a whole run of identifier characters.
\<close>

definition idPatternAt :: "string \<Rightarrow> string \<Rightarrow> string \<Rightarrow> string \<Rightarrow> bool" where
  "idPatternAt marker path pre i \<longleftrightarrow>
     i \<noteq> [] \<and> (\<forall>c \<in> set i. isIdChar c)
     \<and> (\<exists>post. path = pre @ marker @ i @ post \<and> (post = [] \<or> \<not> isIdChar (hd post)))"

definition docPatternAt :: "string \<Rightarrow> string \<Rightarrow> string \<Rightarrow> string \<Rightarrow> bool" where
  "docPatternAt path pre w i \<longleftrightarrow>
     w \<in> set [''document'', ''spreadsheets'', ''presentation'', ''drawings'']
     \<and> idPatternAt (''/'' @ w @ ''/d/'') path pre i"

definition docKind :: "string \<Rightarrow> ResourceType" where
  "docKind w =
     (if w = ''document'' then Document
      else if w = ''spreadsheets'' then Spreadsheet
      else if w = ''presentation'' then Presentation
      else Drawing)"


text \<open>A constructor that answers with one given URL object, for concrete examples.\<close>

definition urlObject :: "URL \<Rightarrow> string \<Rightarrow> URL option" where
  "urlObject u = (\<lambda>_. Some u)"

section \<open>Text fetch with retries (utils.ts)\<close>

text \<open>
  The error classes of errors.ts and the plain \<^verbatim>\<open>Error\<close>, each with its message.
\<close>

datatype JsError =
  Error string
| RateLimitError string
| PermissionError string
| FileNotFoundError string

fun errorMessage :: "JsError \<Rightarrow> string" where
  "errorMessage (Error m) = m"
| "errorMessage (RateLimitError m) = m"
| "errorMessage (PermissionError m) = m"
| "errorMessage (FileNotFoundError m) = m"

text \<open>
  What \<^verbatim>\<open>fetchText\<close> reads of a response: the status code, the \<^verbatim>\<open>location\<close> and
  \<^verbatim>\<open>set-cookie\<close> headers, and the body, given as the outcome of \<^verbatim>\<open>decodeBody\<close> on the
  received chunks (\<open>Inl\<close> when zlib throws).
\<close>

record HttpResponse =
  statusCode :: nat
  location :: "string option"
  setCookie :: "string list option"
  decoded :: "JsError + string"

text \<open>
  What the network does with one request: a response arrives, the request emits
  \<^verbatim>\<open>error\<close> (connection reset, DNS failure), or the socket stays idle for the 60 s of
  \<^verbatim>\<open>req.setTimeout\<close>.
\<close>

datatype NetEvent = Responds HttpResponse | SocketError JsError | TimesOut

text \<open>
  The promise returned: resolved, rejected, or still pending when the scripted network
  has no further event. The effects, in order: each request with the URL and the jar
  whose cookies it sends, and each timer.
\<close>

datatype 'a Settled = Resolved 'a | Rejected JsError | Pending

datatype Effect = Request string CookieJar | Sleep real

definition emit ::
  "Effect list \<Rightarrow> 'a \<times> CookieJar \<times> Effect list \<Rightarrow> 'a \<times> CookieJar \<times> Effect list"
where
  "emit effects r = (fst r, fst (snd r), effects @ snd (snd r))"

text \<open>\<^verbatim>\<open>Math.min(2000 * Math.pow(2, retryCount), 30000)\<close> of the \<^verbatim>\<open>error\<close> handler.\<close>

definition fetchTextErrorDelay :: "nat \<Rightarrow> real" where
  "fetchTextErrorDelay retryCount = min (2000 * 2 ^ retryCount) 30000"

text \<open>
  \<^verbatim>\<open>fetchText(url, {jar, maxRetries, retryCount})\<close> against a scripted network: every request
  takes the next event. The jar is mutated in place in the source and threaded through
  here. \<open>resolveUrl location url\<close> stands for \<^verbatim>\<open>new URL(location, url).toString()\<close>. The
  recursive calls of the source pass the same options with the new \<^verbatim>\<open>retryCount\<close>.

  On a timeout the handler destroys the request and rejects with \<^verbatim>\<open>Request timeout\<close>.
  The destroyed request, which has had no response, then emits \<^verbatim>\<open>error\<close>, so that the
  \<^verbatim>\<open>error\<close> handler runs as for a connection error: below \<^verbatim>\<open>maxRetries\<close> it sets its
  timer and calls \<^verbatim>\<open>fetchText\<close> again. That call cannot settle the promise a second
  time, but its requests and timers happen and it may update the jar: the outcome is the
  rejection, and the jar and the effects are those at the end of the run.
\<close>

fun fetchText ::
  "(string \<Rightarrow> string \<Rightarrow> string) \<Rightarrow> nat \<Rightarrow> NetEvent list \<Rightarrow> string \<Rightarrow> CookieJar \<Rightarrow> nat
     \<Rightarrow> string Settled \<times> CookieJar \<times> Effect list"
where
  "fetchText resolveUrl maxRetries [] url jar retryCount = (Pending, jar, [Request url jar])"
| "fetchText resolveUrl maxRetries (Responds res # net) url jar retryCount =
     (if 300 \<le> statusCode res \<and> statusCode res < 400
         \<and> location res \<noteq> None \<and> location res \<noteq> Some []
      then emit [Request url jar]
             (fetchText resolveUrl maxRetries net (resolveUrl (the (location res)) url) jar
                retryCount)
      else if statusCode res = 429
      then (if retryCount < maxRetries
            then emit [Request url jar, Sleep (fetchTextRateLimitDelay retryCount)]
                   (fetchText resolveUrl maxRetries net url jar (retryCount + 1))
            else (Rejected (RateLimitError
                    (''Rate limited after '' @ decimal maxRetries @ '' retries'')),
                  jar, [Request url jar]))
      else if 400 \<le> statusCode res
      then (Rejected (Error (''HTTP '' @ decimal (statusCode res) @ '' when fetching '' @ url)),
            jar, [Request url jar])
      else (case decoded res of
              Inr text \<Rightarrow>
                (Resolved text, updateCookiesFromHeaders jar (setCookie res), [Request url jar])
            | Inl err \<Rightarrow>
                (Rejected err, updateCookiesFromHeaders jar (setCookie res), [Request url jar])))"
| "fetchText resolveUrl maxRetries (SocketError err # net) url jar retryCount =
     (if retryCount < maxRetries
      then emit [Request url jar, Sleep (fetchTextErrorDelay retryCount)]
             (fetchText resolveUrl maxRetries net url jar (retryCount + 1))
      else (Rejected err, jar, [Request url jar]))"
| "fetchText resolveUrl maxRetries (TimesOut # net) url jar retryCount =
     (if retryCount < maxRetries
      then (case emit [Request url jar, Sleep (fetchTextErrorDelay retryCount)]
                   (fetchText resolveUrl maxRetries net url jar (retryCount + 1)) of
              (settled, jar1, effects) \<Rightarrow> (Rejected (Error ''Request timeout''), jar1, effects))
      else (Rejected (Error ''Request timeout''), jar, [Request url jar]))"

text \<open>The timers of a run, in order: one per retry.\<close>

fun sleeps :: "Effect list \<Rightarrow> real list" where
  "sleeps [] = []"
| "sleeps (Sleep ms # es) = ms # sleeps es"
| "sleeps (Request url jar # es) = sleeps es"

text \<open>The jars sent with the requests of a run, in order.\<close>

fun requestJars :: "Effect list \<Rightarrow> CookieJar list" where
  "requestJars [] = []"
| "requestJars (Sleep ms # es) = requestJars es"
| "requestJars (Request url jar # es) = jar # requestJars es"

text \<open>
  For an absolute \<^verbatim>\<open>location\<close>, \<^verbatim>\<open>new URL(location, url)\<close> is the location itself; this
  resolver serves the concrete runs below.
\<close>

definition resolveAbsolute :: "string \<Rightarrow> string \<Rightarrow> string" where
  "resolveAbsolute loc url = loc"

section \<open>Download orchestrator (download.ts)\<close>

text \<open>
  The options that decide what \<^verbatim>\<open>downloadFile\<close> does. \<^verbatim>\<open>quiet\<close>, \<^verbatim>\<open>verbose\<close> and
  \<^verbatim>\<open>continue\<close> only change what is printed, and console output is not modelled.
\<close>

record DownloadOptions =
  opt_id :: "string option"
  opt_resourceKey :: "string option"
  opt_format :: "string option"
  opt_verify :: bool
  opt_noCookies :: bool

text \<open>\<^verbatim>\<open>interface FileMetadata\<close> (types.ts), the record kept per resource id by cache.ts.\<close>

record FileMetadata =
  md_id :: string
  md_name :: string
  md_size :: "nat option"
  md_hash :: "string option"
  md_mimeType :: "string option"

text \<open>
  The state outside the process: the stored cookies (what \<^verbatim>\<open>loadCookies\<close> returns and
  \<^verbatim>\<open>saveCookies\<close> replaces), the metadata cache by resource id, and the regular files by
  path, each with its size and its SHA-256 digest in hexadecimal. Reading and writing
  the cache and the cookie store are taken to succeed.
\<close>

record FileInfo =
  fi_size :: nat
  fi_sha256 :: string

record World =
  storedCookies :: CookieJar
  cache :: "string \<rightharpoonup> FileMetadata"
  files :: "string \<rightharpoonup> FileInfo"

text \<open>A string that may be \<^verbatim>\<open>undefined\<close> or \<^verbatim>\<open>null\<close>, used as a condition: empty is falsy.\<close>

definition truthy :: "string option \<Rightarrow> bool" where
  "truthy v \<longleftrightarrow> v \<noteq> None \<and> v \<noteq> Some []"

text \<open>cache.ts: \<^verbatim>\<open>loadMetadata\<close>, \<^verbatim>\<open>saveMetadata\<close>, \<^verbatim>\<open>calculateFileHash\<close>, \<^verbatim>\<open>verifyFileHash\<close>,
  \<^verbatim>\<open>isFileValid\<close>.\<close>

definition loadMetadata :: "World \<Rightarrow> string \<Rightarrow> FileMetadata option" where
  "loadMetadata world fileId = cache world fileId"

definition saveMetadata :: "World \<Rightarrow> FileMetadata \<Rightarrow> World" where
  "saveMetadata world metadata = world\<lparr>cache := (cache world)(md_id metadata \<mapsto> metadata)\<rparr>"

text \<open>A path as Node quotes it in the message of a file-system error.\<close>

definition quoted :: "string \<Rightarrow> string" where
  "quoted path = [CHR 0x27] @ path @ [CHR 0x27]"

definition calculateFileHash :: "World \<Rightarrow> string \<Rightarrow> JsError + string" where
  "calculateFileHash world filePath =
     (case files world filePath of
        Some f \<Rightarrow> Inr (fi_sha256 f)
      | None \<Rightarrow>
          Inl (Error (''ENOENT: no such file or directory, open '' @ quoted filePath)))"

definition verifyFileHash :: "World \<Rightarrow> string \<Rightarrow> string \<Rightarrow> bool" where
  "verifyFileHash world filePath expectedHash =
     (case calculateFileHash world filePath of
        Inr actualHash \<Rightarrow> actualHash = expectedHash
      | Inl err \<Rightarrow> False)"

definition isFileValid :: "World \<Rightarrow> string \<Rightarrow> string option \<Rightarrow> bool" where
  "isFileValid world filePath expectedHash =
     (if files world filePath = None then False
      else if truthy expectedHash then verifyFileHash world filePath (the expectedHash)
      else True)"

text \<open>
  The download URL, by its query parameters: \<^verbatim>\<open>buildDownloadUrl\<close> sets \<^verbatim>\<open>id\<close>, and
  \<^verbatim>\<open>resourcekey\<close> and \<^verbatim>\<open>format\<close> when they are given; the loop sets \<^verbatim>\<open>confirm\<close>.
\<close>

record DownloadUrl =
  du_id :: string
  du_resourceKey :: "string option"
  du_format :: "string option"
  du_confirm :: "string option"

definition buildDownloadUrl :: "string \<Rightarrow> string option \<Rightarrow> string option \<Rightarrow> DownloadUrl" where
  "buildDownloadUrl fileId resourceKey format =
     \<lparr>du_id = fileId,
      du_resourceKey = (if truthy resourceKey then resourceKey else None),
      du_format = (if truthy format then format else None),
      du_confirm = None\<rparr>"

text \<open>\<^verbatim>\<open>interface DownloadAttempt\<close>, the value \<^verbatim>\<open>performDownloadRequest\<close> resolves with.\<close>

record DownloadAttempt =
  success :: bool
  filePath :: "string option"
  body :: "string option"
  da_statusCode :: "nat option"

text \<open>
  \<^verbatim>\<open>performDownloadRequest\<close> talks to the network and writes the file. The model takes what
  one call does from the environment: the \<^verbatim>\<open>set-cookie\<close> headers of the responses it
  received, which it merges into the jar one response after the other, the file it
  wrote, if any, and the value it resolves with or the error it rejects with.
\<close>

record RequestRun =
  rr_cookies :: "string list option list"
  rr_written :: "(string \<times> FileInfo) option"
  rr_result :: "JsError + DownloadAttempt"

text \<open>
  The environment of \<^verbatim>\<open>downloadFile\<close>: the platform's URL constructor and path functions,
  the format table of formats.ts, and the run of the request made at each attempt for a
  URL and a jar.
\<close>

record Env =
  env_newURL :: "string \<Rightarrow> URL option"
  env_getExportFormat :: "ResourceType \<Rightarrow> string \<Rightarrow> string option"
  env_join :: "string \<Rightarrow> string \<Rightarrow> string"
  env_basename :: "string \<Rightarrow> string"
  env_request :: "nat \<Rightarrow> DownloadUrl \<Rightarrow> CookieJar \<Rightarrow> RequestRun"

text \<open>
  Where the file goes, as lines 184 to 200 compute it from \<^verbatim>\<open>output\<close>, the working
  directory and the file system: the destination directory, and the preferred name
  unless the output path is an existing directory.
\<close>

record Destination =
  destDir :: string
  preferredName :: "string option"

text \<open>The effects of a download, in order: each request and each timer.\<close>

datatype DownloadEffect = Attempt nat DownloadUrl CookieJar | Wait real

text \<open>What does not change during the attempts.\<close>

record Job =
  job_fileId :: string
  job_downloadUrl :: DownloadUrl
  job_dest :: Destination
  job_verify :: bool
  job_noCookies :: bool

definition maxAttempts :: nat where
  "maxAttempts = 15"

text \<open>The outcome of the \<^verbatim>\<open>try\<close> block of one attempt, and of the \<^verbatim>\<open>catch\<close> block.\<close>

datatype Step =
  Return string
| Continue "real option" "string option"
| Throw JsError

text \<open>The test of the response for rate limiting, and the test of an error message.\<close>

definition rateLimitedResult :: "DownloadAttempt \<Rightarrow> bool" where
  "rateLimitedResult result \<longleftrightarrow>
     (let body = (if truthy (body result) then the (body result) else [])
      in da_statusCode result = Some 429
         \<or> includesStr body ''rate limit''
         \<or> includesStr body ''quota''
         \<or> includesStr body ''429''
         \<or> includesStr body ''Too many requests'')"

definition rateLimitedMessage :: "string \<Rightarrow> bool" where
  "rateLimitedMessage errorMsg \<longleftrightarrow>
     includesStr errorMsg ''429''
     \<or> includesStr errorMsg ''rate limit''
     \<or> includesStr errorMsg ''quota''
     \<or> includesStr errorMsg ''Too many requests''"

text \<open>
  The \<^verbatim>\<open>try\<close> block after the request has settled, from \<^verbatim>\<open>if (result.success && ...)\<close> on.
  \<open>Continue delay token\<close> goes to the next attempt after the delay, if any, with the
  confirmation token. The world is the one after the request.
\<close>

definition tryBlock ::
  "Env \<Rightarrow> Job \<Rightarrow> nat \<Rightarrow> string option \<Rightarrow> CookieJar \<Rightarrow> World \<Rightarrow> DownloadAttempt \<Rightarrow> Step \<times> World"
where
  "tryBlock env job attempt confirmToken jar world result =
     (if success result \<and> truthy (filePath result)
      then (let path = the (filePath result);
                world1 = (if \<not> job_noCookies job then world\<lparr>storedCookies := jar\<rparr> else world)
            in if job_verify job
               then (case calculateFileHash world1 path of
                       Inl err \<Rightarrow> (Throw err, world1)
                     | Inr hash \<Rightarrow>
                         (case files world1 path of
                            None \<Rightarrow>
                              (Throw (Error (''ENOENT: no such file or directory, stat ''
                                               @ quoted path)),
                               world1)
                          | Some f \<Rightarrow>
                              (Return path,
                               saveMetadata world1
                                 \<lparr>md_id = job_fileId job, md_name = env_basename env path,
                                  md_size = Some (fi_size f), md_hash = Some hash,
                                  md_mimeType = None\<rparr>)))
               else (Return path, world1))
      else (let body = (if truthy (body result) then the (body result) else [])
            in if rateLimitedResult result
               then (Continue (Some (downloadRateLimitDelay attempt)) confirmToken, world)
               else if includesStr body ''permission'' \<or> includesStr body ''access denied''
                       \<or> da_statusCode result = Some 403
               then (Throw (PermissionError
                       ''Permission denied. The file may not be publicly accessible.''), world)
               else if includesStr body ''not found'' \<or> da_statusCode result = Some 404
               then (Throw (FileNotFoundError ''File not found on Google Drive.''), world)
               else (case extractConfirmToken body of
                       None \<Rightarrow>
                         if attempt < maxAttempts - 1
                         then (Continue (Some (min (3000 * (3 / 2) ^ attempt) 30000)) confirmToken,
                               world)
                         else (Throw (Error ''Unable to obtain Google Drive confirmation token''),
                               world)
                     | Some token \<Rightarrow>
                         if attempt < maxAttempts - 1
                         then (Continue (Some (min (2000 + real attempt * 1000) 15000)) (Some token),
                               world)
                         else (Continue None (Some token), world))))"

text \<open>The \<^verbatim>\<open>catch\<close> block, for whatever the \<^verbatim>\<open>try\<close> block threw.\<close>

definition catchBlock :: "nat \<Rightarrow> string option \<Rightarrow> JsError \<Rightarrow> Step" where
  "catchBlock attempt confirmToken err =
     (if rateLimitedMessage (errorMessage err)
      then Continue (Some (downloadRateLimitDelay attempt)) confirmToken
      else if attempt = maxAttempts - 1
      then Throw err
      else Continue (Some (min (2000 * (3 / 2) ^ attempt) 20000)) confirmToken)"

text \<open>The URL requested at an attempt.\<close>

definition attemptUrl :: "Job \<Rightarrow> string option \<Rightarrow> DownloadUrl" where
  "attemptUrl job confirmToken =
     (if truthy confirmToken
      then (job_downloadUrl job)\<lparr>du_confirm := confirmToken\<rparr>
      else job_downloadUrl job)"

text \<open>One attempt: the request, then the \<^verbatim>\<open>try\<close> block, and the \<^verbatim>\<open>catch\<close> block on a throw.\<close>

definition attemptStep ::
  "Env \<Rightarrow> Job \<Rightarrow> nat \<Rightarrow> string option \<Rightarrow> CookieJar \<Rightarrow> World \<Rightarrow> Step \<times> CookieJar \<times> World"
where
  "attemptStep env job attempt confirmToken jar world =
     (let run = env_request env attempt (attemptUrl job confirmToken) jar;
          jar1 = foldl updateCookiesFromHeaders jar (rr_cookies run);
          world1 = (case rr_written run of
                      None \<Rightarrow> world
                    | Some (path, f) \<Rightarrow> world\<lparr>files := (files world)(path \<mapsto> f)\<rparr>)
      in case rr_result run of
           Inl err \<Rightarrow> (catchBlock attempt confirmToken err, jar1, world1)
         | Inr result \<Rightarrow>
             (case tryBlock env job attempt confirmToken jar1 world1 result of
                (Throw err, world2) \<Rightarrow> (catchBlock attempt confirmToken err, jar1, world2)
              | (step, world2) \<Rightarrow> (step, jar1, world2)))"

text \<open>
  The \<^verbatim>\<open>for\<close> loop over the attempts, and the error after it. The result is the path
  returned or the error thrown, the world, and the effects.
\<close>

function downloadLoop ::
  "Env \<Rightarrow> Job \<Rightarrow> nat \<Rightarrow> string option \<Rightarrow> CookieJar \<Rightarrow> World
     \<Rightarrow> (JsError + string) \<times> World \<times> DownloadEffect list"
where
  "downloadLoop env job attempt confirmToken jar world =
     (if attempt < maxAttempts
      then (case attemptStep env job attempt confirmToken jar world of
              (Return path, jar1, world1) \<Rightarrow>
                (Inr path, world1, [Attempt attempt (attemptUrl job confirmToken) jar])
            | (Throw err, jar1, world1) \<Rightarrow>
                (Inl err, world1, [Attempt attempt (attemptUrl job confirmToken) jar])
            | (Continue delay token, jar1, world1) \<Rightarrow>
                (case downloadLoop env job (attempt + 1) token jar1 world1 of
                   (r, world2, effects) \<Rightarrow>
                     (r, world2,
                      Attempt attempt (attemptUrl job confirmToken) jar
                        # (case delay of None \<Rightarrow> [] | Some ms \<Rightarrow> [Wait ms]) @ effects)))
      else (Inl (Error ''Exceeded maximum attempts while downloading from Google Drive''),
            world, []))"
  by pat_completeness auto
termination
  by (relation "measure (\<lambda>(env, job, attempt, confirmToken, jar, world). maxAttempts - attempt)")
     auto

declare downloadLoop.simps [simp del]

text \<open>The path that the check before the download looks at.\<close>

definition finalPath :: "Env \<Rightarrow> Destination \<Rightarrow> FileMetadata \<Rightarrow> string \<Rightarrow> string" where
  "finalPath env dest metadata fileId =
     (if truthy (preferredName dest)
      then env_join env (destDir dest) (the (preferredName dest))
      else env_join env (destDir dest)
             (if md_name metadata \<noteq> [] then md_name metadata else fileId))"

text \<open>
  The start of \<^verbatim>\<open>downloadFile\<close>: the resource id, the resource key and the type, from
  \<^verbatim>\<open>options.id\<close> or from the URL. \<open>None\<close> is the error thrown when the URL yields no id.
\<close>

definition resolveTarget ::
  "Env \<Rightarrow> string \<Rightarrow> DownloadOptions \<Rightarrow> (string \<times> string option \<times> ResourceType option) option"
where
  "resolveTarget env urlOrId options =
     (if truthy (opt_id options)
      then Some (the (opt_id options), opt_resourceKey options, None)
      else (case parseGoogleDriveUrl (env_newURL env) urlOrId of
              None \<Rightarrow> None
            | Some parsed \<Rightarrow>
                Some (pu_id parsed,
                      (if truthy (pu_resourceKey parsed) then pu_resourceKey parsed
                       else opt_resourceKey options),
                      Some (pu_type parsed))))"

text \<open>The check of the cache before the download: the path to return, if any.\<close>

definition cachedPath :: "Env \<Rightarrow> Destination \<Rightarrow> DownloadOptions \<Rightarrow> World \<Rightarrow> string \<Rightarrow> string option" where
  "cachedPath env dest options world fileId =
     (if opt_verify options
      then (case loadMetadata world fileId of
              None \<Rightarrow> None
            | Some metadata \<Rightarrow>
                if truthy (md_hash metadata)
                   \<and> isFileValid world (finalPath env dest metadata fileId) (md_hash metadata)
                then Some (finalPath env dest metadata fileId)
                else None)
      else None)"

text \<open>The download URL, with the export format when one applies.\<close>

definition jobFor ::
  "Env \<Rightarrow> Destination \<Rightarrow> DownloadOptions \<Rightarrow> string \<Rightarrow> string option \<Rightarrow> ResourceType option \<Rightarrow> Job"
where
  "jobFor env dest options fileId resourceKey fileType =
     (let exportFormat =
            (if truthy (opt_format options) \<and> fileType \<noteq> None
             then env_getExportFormat env (the fileType) (the (opt_format options))
             else None);
          downloadUrl =
            (if truthy exportFormat
             then buildDownloadUrl fileId resourceKey exportFormat
             else buildDownloadUrl fileId resourceKey None)
      in \<lparr>job_fileId = fileId, job_downloadUrl = downloadUrl, job_dest = dest,
          job_verify = opt_verify options, job_noCookies = opt_noCookies options\<rparr>)"

text \<open>
  \<^verbatim>\<open>downloadFile(urlOrId, output, options)\<close>, with the destination in place of \<^verbatim>\<open>output\<close>.
\<close>

definition downloadFile ::
  "Env \<Rightarrow> string \<Rightarrow> Destination \<Rightarrow> DownloadOptions \<Rightarrow> World
     \<Rightarrow> (JsError + string) \<times> World \<times> DownloadEffect list"
where
  "downloadFile env urlOrId dest options world =
     (case resolveTarget env urlOrId options of
        None \<Rightarrow> (Inl (Error (''Unable to extract Google Drive ID from: '' @ urlOrId)), world, [])
      | Some (fileId, resourceKey, fileType) \<Rightarrow>
          (let jar = (if opt_noCookies options then Map.empty else storedCookies world)
           in case cachedPath env dest options world fileId of
                Some path \<Rightarrow> (Inr path, world, [])
              | None \<Rightarrow>
                  downloadLoop env (jobFor env dest options fileId resourceKey fileType)
                    0 None jar world))"

text \<open>
  A small environment for concrete runs: directories joined with a slash, the last path
  component as base name, no URL parsing (the id is given in the options), no export
  formats.
\<close>

definition exampleJoin :: "string \<Rightarrow> string \<Rightarrow> string" where
  "exampleJoin dir name = dir @ ''/'' @ name"

definition noURL :: "string \<Rightarrow> URL option" where
  "noURL url = None"

definition noExportFormat :: "ResourceType \<Rightarrow> string \<Rightarrow> string option" where
  "noExportFormat fileType format = None"

definition exampleEnv :: "(nat \<Rightarrow> DownloadUrl \<Rightarrow> CookieJar \<Rightarrow> RequestRun) \<Rightarrow> Env" where
  "exampleEnv request =
     \<lparr>env_newURL = noURL, env_getExportFormat = noExportFormat, env_join = exampleJoin,
      env_basename = lastComponent, env_request = request\<rparr>"

text \<open>
  A server that sends a file named \<^verbatim>\<open>report.pdf\<close> at every request, for a directory
  \<^verbatim>\<open>/out\<close> that has no file of that name: the request writes \<^verbatim>\<open>/out/report.pdf\<close>.
\<close>

definition serveFile :: "nat \<Rightarrow> DownloadUrl \<Rightarrow> CookieJar \<Rightarrow> RequestRun" where
  "serveFile attempt url jar =
     \<lparr>rr_cookies = [None],
      rr_written = Some (''/out/report.pdf'', \<lparr>fi_size = 3, fi_sha256 = ''aa11''\<rparr>),
      rr_result = Inr \<lparr>success = True, filePath = Some ''/out/report.pdf'', body = None,
                       da_statusCode = Some 200\<rparr>\<rparr>"


text \<open>
  A server that answers the first request with the given status and an empty body, and
  sends the file from the second request on.
\<close>

definition refuseOnce :: "nat \<Rightarrow> nat \<Rightarrow> DownloadUrl \<Rightarrow> CookieJar \<Rightarrow> RequestRun" where
  "refuseOnce status attempt url jar =
     (if attempt = 0
      then \<lparr>rr_cookies = [None], rr_written = None,
            rr_result = Inr \<lparr>success = False, filePath = None, body = Some [],
                             da_statusCode = Some status\<rparr>\<rparr>
      else serveFile attempt url jar)"

text \<open>
  A server that answers the first request with status 429, as \<^verbatim>\<open>performDownloadRequest\<close>
  resolves it; whose second request is rejected with an error of the write stream that
  names a quota; and that sends the file from the third request on.
\<close>

definition rateLimitTwice :: "nat \<Rightarrow> DownloadUrl \<Rightarrow> CookieJar \<Rightarrow> RequestRun" where
  "rateLimitTwice attempt url jar =
     (if attempt = 0
      then \<lparr>rr_cookies = [None], rr_written = None,
            rr_result = Inr \<lparr>success = False, filePath = None,
                             body = Some ''Rate limited (429)'', da_statusCode = Some 429\<rparr>\<rparr>
      else if attempt = 1
      then \<lparr>rr_cookies = [None], rr_written = None,
            rr_result = Inl (Error ''EDQUOT: disk quota exceeded, write'')\<rparr>
      else serveFile attempt url jar)"

definition exampleOptions :: "bool \<Rightarrow> DownloadOptions" where
  "exampleOptions verify =
     \<lparr>opt_id = Some ''FILE1'', opt_resourceKey = None, opt_format = None,
      opt_verify = verify, opt_noCookies = True\<rparr>"

definition exampleDest :: Destination where
  "exampleDest = \<lparr>destDir = ''/out'', preferredName = Some ''report.pdf''\<rparr>"

definition emptyWorld :: World where
  "emptyWorld = \<lparr>storedCookies = Map.empty, cache = Map.empty, files = Map.empty\<rparr>"

definition exampleUrl :: DownloadUrl where
  "exampleUrl = \<lparr>du_id = ''FILE1'', du_resourceKey = None, du_format = None, du_confirm = None\<rparr>"

definition exampleJob :: Job where
  "exampleJob =
     \<lparr>job_fileId = ''FILE1'', job_downloadUrl = exampleUrl, job_dest = exampleDest,
      job_verify = False, job_noCookies = True\<rparr>"




section \<open>Folder listing (folder.ts)\<close>

text \<open>
  \<^verbatim>\<open>value.replace(/p/g, r)\<close> for a literal, non-empty pattern \<open>p\<close>: the occurrences are
  replaced from left to right, and the search goes on after each replaced occurrence.
\<close>

function replaceAll :: "string \<Rightarrow> string \<Rightarrow> string \<Rightarrow> string" where
  "replaceAll p r s =
     (if p = [] \<or> s = [] then s
      else if prefix p s then r @ replaceAll p r (drop (length p) s)
      else hd s # replaceAll p r (tl s))"
  by pat_completeness auto
termination
  by (relation "measure (\<lambda>(p, r, s). length s)") (auto simp: prefix_def)

declare replaceAll.simps [simp del]

definition decodeHtmlEntities :: "string \<Rightarrow> string" where
  "decodeHtmlEntities v =
     replaceAll ''&#x2F;'' ''/''
       (replaceAll ''&#39;'' [CHR 0x27]
         (replaceAll ''&quot;'' ''\"''
           (replaceAll ''&gt;'' ''>''
             (replaceAll ''&lt;'' ''<''
               (replaceAll ''&amp;'' ''&'' v)))))"

text \<open>\<^verbatim>\<open>interface FolderEntry\<close>; the type is \<^verbatim>\<open>"file"\<close> or \<^verbatim>\<open>"folder"\<close>.\<close>

record FolderEntry =
  fe_id :: string
  fe_name :: string
  fe_type :: ResourceType
  fe_resourceKey :: "string option"

text \<open>
  \<^verbatim>\<open>classifyDriveHref\<close>: the id (\<open>None\<close> is \<^verbatim>\<open>null\<close>), the type and the resource key of a link.
  A path that contains the marker returns at once, with or without an id.
\<close>

definition classifyDriveHref ::
  "(string \<Rightarrow> URL option) \<Rightarrow> string \<Rightarrow> string option \<times> ResourceType \<times> string option"
where
  "classifyDriveHref newURL href =
     (case newURL href of
        None \<Rightarrow> (None, File, None)
      | Some u \<Rightarrow>
          (let resourceKey = orUndefined (searchParamsGet u ''resourcekey'') in
           if includesStr (pathname u) ''/drive/folders/''
           then (search folderIdMatcher (pathname u), Folder, resourceKey)
           else if includesStr (pathname u) ''/file/d/''
           then (search fileIdMatcher (pathname u), File, resourceKey)
           else (case orUndefined (searchParamsGet u ''id'') of
                   Some idParam \<Rightarrow> (Some idParam, File, resourceKey)
                 | None \<Rightarrow> (None, File, None))))"

text \<open>
  The entry pattern, tried at one position; the result is the three capture groups and
  the text after the match, where the next search starts (\<^verbatim>\<open>lastIndex\<close>):

  \<^verbatim>\<open>/<div class="flip-entry" id="entry-([^"]+)"[\s\S]*?<a href="([^"]+)"[^>]*>[\s\S]*?<div class="flip-entry-title">(.*?)<\/div>/g\<close>

  The dot matches every character but the line terminators.
\<close>

definition notQuote :: "char \<Rightarrow> bool" where
  "notQuote c \<longleftrightarrow> c \<noteq> CHR 0x22"

definition notGt :: "char \<Rightarrow> bool" where
  "notGt c \<longleftrightarrow> c \<noteq> CHR ''>''"

definition anyChar :: "char \<Rightarrow> bool" where
  "anyChar c \<longleftrightarrow> True"

definition dotChar :: "char \<Rightarrow> bool" where
  "dotChar c \<longleftrightarrow> c \<noteq> CHR 0x0A \<and> c \<noteq> CHR 0x0D"

definition entryMatcher :: "string \<Rightarrow> ((string \<times> string \<times> string) \<times> string) option" where
  "entryMatcher =
     lit ''<div class=\"flip-entry\" id=\"entry-'' (greedy notQuote 1 (\<lambda>g1.
     lit ''\"'' (lazy anyChar (\<lambda>_.
     lit ''<a href=\"'' (greedy notQuote 1 (\<lambda>g2.
     lit ''\"'' (greedy notGt 0 (\<lambda>_.
     lit ''>'' (lazy anyChar (\<lambda>_.
     lit ''<div class=\"flip-entry-title\">'' (lazy dotChar (\<lambda>g3.
     lit ''</div>'' (\<lambda>rest. Some ((g1, g2, g3), rest))) [])) [])) [])) [])) [])) [])"

text \<open>A match of the entry pattern leaves less text than it started with.\<close>

lemma lit_shrinks:
  assumes "\<And>s' x rest. k s' = Some (x, rest) \<Longrightarrow> length rest \<le> length s'"
    and "lit p k s = Some (x, rest)"
  shows "length rest + length p \<le> length s"
proof -
  from assms(2) have "prefix p s" and "k (drop (length p) s) = Some (x, rest)"
    by (auto simp: lit_def split: if_splits)
  from assms(1) [OF this(2)] \<open>prefix p s\<close> show ?thesis
    by (auto simp: prefix_def)
qed

lemma greedy_shrinks:
  assumes "\<And>a s' x rest. k a s' = Some (x, rest) \<Longrightarrow> length rest \<le> length s'"
  shows "greedy cls n k acc s = Some (x, rest) \<Longrightarrow> length rest \<le> length s"
proof (induction s arbitrary: acc)
  case Nil
  then have "k acc [] = Some (x, rest)" by (auto split: if_splits)
  then show ?case by (rule assms)
next
  case (Cons c cs)
  show ?case
  proof (cases "if cls c then greedy cls n k (acc @ [c]) cs else None")
    case None
    with Cons.prems have "k acc (c # cs) = Some (x, rest)" by (auto split: if_splits)
    then show ?thesis by (rule assms)
  next
    case (Some r)
    with Cons.prems have "greedy cls n k (acc @ [c]) cs = Some (x, rest)"
      by (auto split: if_splits)
    then have "length rest \<le> length cs" by (rule Cons.IH)
    then show ?thesis by simp
  qed
qed

lemma lazy_shrinks:
  assumes "\<And>a s' x rest. k a s' = Some (x, rest) \<Longrightarrow> length rest \<le> length s'"
  shows "lazy cls k acc s = Some (x, rest) \<Longrightarrow> length rest \<le> length s"
proof (induction s arbitrary: acc)
  case Nil
  then have "k acc [] = Some (x, rest)" by simp
  then show ?case by (rule assms)
next
  case (Cons c cs)
  show ?case
  proof (cases "k acc (c # cs)")
    case (Some r)
    with Cons.prems have "k acc (c # cs) = Some (x, rest)" by simp
    then show ?thesis by (rule assms)
  next
    case None
    with Cons.prems have "lazy cls k (acc @ [c]) cs = Some (x, rest)"
      by (auto split: if_splits)
    then have "length rest \<le> length cs" by (rule Cons.IH)
    then show ?thesis by simp
  qed
qed

lemma search_shrinks:
  assumes "\<And>s' x rest. m s' = Some (x, rest) \<Longrightarrow> length rest < length s'"
  shows "search m s = Some (x, rest) \<Longrightarrow> length rest < length s"
proof (induction s)
  case Nil
  then show ?case using assms [of "[]"] by simp
next
  case (Cons c cs)
  show ?case
  proof (cases "m (c # cs)")
    case (Some r)
    with Cons.prems have "m (c # cs) = Some (x, rest)" by simp
    then show ?thesis by (rule assms)
  next
    case None
    with Cons.prems have "search m cs = Some (x, rest)" by simp
    then have "length rest < length cs" by (rule Cons.IH)
    then show ?thesis by simp
  qed
qed

lemma entryMatcher_shrinks:
  assumes "entryMatcher s = Some (x, rest)"
  shows "length rest < length s"
proof -
  have "length rest + length ''<div class=\"flip-entry\" id=\"entry-'' \<le> length s"
    using assms unfolding entryMatcher_def
    by (elim lit_shrinks [rotated] greedy_shrinks [rotated] lazy_shrinks [rotated]
             lit_shrinks [rotated, THEN add_leD1]) simp
  then show ?thesis by simp
qed

lemma search_entryMatcher_shrinks:
  "search entryMatcher s = Some (x, rest) \<Longrightarrow> length rest < length s"
  by (rule search_shrinks [of entryMatcher]) (rule entryMatcher_shrinks)

definition MAX_FILES_PER_FOLDER :: nat where
  "MAX_FILES_PER_FOLDER = 50"

text \<open>
  The body of the \<^verbatim>\<open>while\<close> loop for one match: the entry to push, or \<open>None\<close> for
  \<^verbatim>\<open>continue\<close> when the link yields no id.
\<close>

definition entryOfMatch :: "(string \<Rightarrow> URL option) \<Rightarrow> string \<times> string \<times> string \<Rightarrow> FolderEntry option" where
  "entryOfMatch newURL m =
     (case m of (g1, g2, g3) \<Rightarrow>
        (let href = decodeHtmlEntities g2;
             title = trim (decodeHtmlEntities g3)
         in case classifyDriveHref newURL href of
              (ident, type, childResourceKey) \<Rightarrow>
                if \<not> truthy ident then None
                else Some \<lparr>fe_id = the ident,
                           fe_name = (if title \<noteq> [] then title else the ident),
                           fe_type = type,
                           fe_resourceKey = childResourceKey\<rparr>))"

text \<open>
  The \<^verbatim>\<open>while\<close> loop: \<open>html\<close> is the text from \<^verbatim>\<open>lastIndex\<close> on. The result is the entries
  and the final \<^verbatim>\<open>fileCount\<close>.
\<close>

function entriesLoop ::
  "(string \<Rightarrow> URL option) \<Rightarrow> string \<Rightarrow> FolderEntry list \<Rightarrow> nat \<Rightarrow> FolderEntry list \<times> nat"
where
  "entriesLoop newURL html entries fileCount =
     (case search entryMatcher html of
        None \<Rightarrow> (entries, fileCount)
      | Some (m, rest) \<Rightarrow>
          if fileCount < MAX_FILES_PER_FOLDER
          then (case entryOfMatch newURL m of
                  None \<Rightarrow> entriesLoop newURL rest entries fileCount
                | Some entry \<Rightarrow> entriesLoop newURL rest (entries @ [entry]) (fileCount + 1))
          else (entries, fileCount))"
  by pat_completeness auto
termination
  by (relation "measure (\<lambda>(newURL, html, entries, fileCount). length html)")
     (auto dest: search_entryMatcher_shrinks)

declare entriesLoop.simps [simp del]

text \<open>
  \<^verbatim>\<open>fetchDriveFolderEntries\<close> after the page has been fetched: the entries returned and the
  warnings printed with \<^verbatim>\<open>console.warn\<close>.
\<close>

definition folderEntriesOfPage ::
  "(string \<Rightarrow> URL option) \<Rightarrow> bool \<Rightarrow> string \<Rightarrow> FolderEntry list \<times> string list"
where
  "folderEntriesOfPage newURL quiet html =
     (case entriesLoop newURL html [] 0 of
        (entries, fileCount) \<Rightarrow>
          (entries,
           if MAX_FILES_PER_FOLDER \<le> fileCount \<and> \<not> quiet
           then [''Warning: Folder contains more than '' @ decimal MAX_FILES_PER_FOLDER
                 @ '' files. Only the first '' @ decimal MAX_FILES_PER_FOLDER
                 @ '' will be downloaded.'']
           else []))"

text \<open>
  \<^verbatim>\<open>fetchDriveFolderEntries(folderId, resourceKey, options)\<close>: the listing page is fetched
  with \<^verbatim>\<open>fetchText\<close> and its defaults (five retries); a rejected fetch rejects the listing.
\<close>

definition fetchDriveFolderEntries ::
  "(string \<Rightarrow> URL option) \<Rightarrow> (string \<Rightarrow> string \<Rightarrow> string) \<Rightarrow> NetEvent list \<Rightarrow> World
     \<Rightarrow> string \<Rightarrow> string option \<Rightarrow> bool \<Rightarrow> bool
     \<Rightarrow> FolderEntry list Settled \<times> string list \<times> Effect list"
where
  "fetchDriveFolderEntries newURL resolveUrl net world folderId resourceKey noCookies quiet =
     (let url = ''https://drive.google.com/embeddedfolderview?id='' @ folderId
                @ (if truthy resourceKey then ''&resourcekey='' @ the resourceKey else [])
                @ ''#list'';
          jar = (if noCookies then Map.empty else storedCookies world)
      in case fetchText resolveUrl 5 net url jar 0 of
           (Resolved html, jar1, effects) \<Rightarrow>
             (case folderEntriesOfPage newURL quiet html of
                (entries, warnings) \<Rightarrow> (Resolved entries, warnings, effects))
         | (Rejected err, jar1, effects) \<Rightarrow> (Rejected err, [], effects)
         | (Pending, jar1, effects) \<Rightarrow> (Pending, [], effects))"

text \<open>
  For stating what the loop returns: all matches of the entry pattern in a page, in page
  order, and the entries they yield.
\<close>

function execAll :: "string \<Rightarrow> (string \<times> string \<times> string) list" where
  "execAll html =
     (case search entryMatcher html of
        None \<Rightarrow> []
      | Some (m, rest) \<Rightarrow> m # execAll rest)"
  by pat_completeness auto
termination
  by (relation "measure length") (auto dest: search_entryMatcher_shrinks)

declare execAll.simps [simp del]

definition pageEntries :: "(string \<Rightarrow> URL option) \<Rightarrow> string \<Rightarrow> FolderEntry list" where
  "pageEntries newURL html = List.map_filter (entryOfMatch newURL) (execAll html)"

text \<open>
  A synthetic listing page: one block per entry, given by its entry id, its link and its
  title. A block is well formed when the id and the link are non-empty and free of double
  quotes, the title is free of line breaks and of \<^verbatim>\<open><\<close>, and the link yields an id.
\<close>

definition renderEntry :: "string \<times> string \<times> string \<Rightarrow> string" where
  "renderEntry e =
     (case e of (i, h, t) \<Rightarrow>
        ''<div class=\"flip-entry\" id=\"entry-'' @ i @ ''\"><a href=\"'' @ h
        @ ''\"><div class=\"flip-entry-title\">'' @ t @ ''</div></a></div>'')"

definition syntheticPage :: "(string \<times> string \<times> string) list \<Rightarrow> string" where
  "syntheticPage es = concat (map renderEntry es)"

definition wellFormedEntry :: "(string \<Rightarrow> URL option) \<Rightarrow> string \<times> string \<times> string \<Rightarrow> bool" where
  "wellFormedEntry newURL e \<longleftrightarrow>
     (case e of (i, h, t) \<Rightarrow>
        i \<noteq> [] \<and> CHR 0x22 \<notin> set i \<and> h \<noteq> [] \<and> CHR 0x22 \<notin> set h
        \<and> CHR ''<'' \<notin> set t \<and> CHR 0x0A \<notin> set t \<and> CHR 0x0D \<notin> set t
        \<and> entryOfMatch newURL e \<noteq> None)"

text \<open>
  A concrete listing for the runs below: thirty files followed by thirty folders, and a
  URL constructor that is enough for their links (host \<^verbatim>\<open>drive.google.com\<close>, no query).
\<close>

definition exampleNewURL :: "string \<Rightarrow> URL option" where
  "exampleNewURL url =
     (if prefix ''https://drive.google.com/'' url
      then Some \<lparr>hostname = ''drive.google.com'', pathname = drop 24 url, searchParams = []\<rparr>
      else None)"

definition exampleListing :: "(string \<times> string \<times> string) list" where
  "exampleListing =
     replicate 30 (''FILE1'', ''https://drive.google.com/file/d/FILE1/view'', ''report.pdf'')
     @ replicate 30 (''DIR1'', ''https://drive.google.com/drive/folders/DIR1'', ''Photos'')"

section \<open>Properties of the back-off delays\<close>

lemma fetchTextRateLimitDelay_mono:
  "n \<le> m \<Longrightarrow> fetchTextRateLimitDelay n \<le> fetchTextRateLimitDelay m"
  unfolding fetchTextRateLimitDelay_def
  by (intro min.mono mult_left_mono power_increasing) simp_all

lemma downloadRateLimitDelay_mono:
  "n \<le> m \<Longrightarrow> downloadRateLimitDelay n \<le> downloadRateLimitDelay m"
  unfolding downloadRateLimitDelay_def
  by (intro min.mono mult_left_mono power_increasing) simp_all

section \<open>Properties of the cookie jar\<close>

lemma dom_updateCookie: "dom jar \<subseteq> dom (updateCookie jar cookie)"
  by (auto simp: updateCookie_def assignProperty_def)

lemma dom_updateCookiesLoop: "dom jar \<subseteq> dom (updateCookiesLoop jar cookies)"
proof (induction cookies arbitrary: jar)
  case Nil
  show ?case by simp
next
  case (Cons c cs)
  have "dom jar \<subseteq> dom (updateCookie jar c)" by (rule dom_updateCookie)
  also have "\<dots> \<subseteq> dom (updateCookiesLoop (updateCookie jar c) cs)" by (rule Cons.IH)
  finally show ?case by simp
qed

lemma updateCookiesLoop_append:
  "updateCookiesLoop jar (xs @ ys) = updateCookiesLoop (updateCookiesLoop jar xs) ys"
  by (induction xs arbitrary: jar) simp_all

lemma updateCookie_skip:
  "cookieNameValue cookie = [] \<or> cookieValue cookie = [] \<Longrightarrow> updateCookie jar cookie = jar"
  by (auto simp: updateCookie_def)

text \<open>Later lines that are skipped, or that set another name, keep the value of a name.\<close>

lemma updateCookiesLoop_keeps:
  assumes "\<forall>d \<in> set ys. cookieNameValue d \<noteq> [] \<and> cookieValue d \<noteq> []
             \<longrightarrow> trim (cookieNameValue d) \<noteq> name"
  shows "updateCookiesLoop jar ys name = jar name"
  using assms
proof (induction ys arbitrary: jar)
  case Nil
  show ?case by simp
next
  case (Cons d ds)
  have "updateCookiesLoop (updateCookie jar d) ds name = updateCookie jar d name"
    using Cons.prems by (intro Cons.IH) simp
  also have "\<dots> = jar name"
    using Cons.prems by (auto simp: updateCookie_def assignProperty_def)
  finally show ?case by simp
qed

text \<open>A jar without an own \<^verbatim>\<open>__proto__\<close> never gets one.\<close>

lemma updateCookiesLoop_proto:
  "jar ''__proto__'' = None \<Longrightarrow> updateCookiesLoop jar cookies ''__proto__'' = None"
proof (induction cookies arbitrary: jar)
  case Nil
  then show ?case by simp
next
  case (Cons c cs)
  have "updateCookie jar c ''__proto__'' = None"
    using Cons.prems by (simp add: updateCookie_def assignProperty_def)
  then show ?case by (simp add: Cons.IH)
qed

text \<open>
  Claim C10, as the code has it. \<^verbatim>\<open>updateCookiesFromHeaders\<close> only adds or overwrites:
  every name of the jar is still in the jar afterwards; an undefined header list leaves
  the jar unchanged; a line whose name or value is empty is skipped, so that the jar is
  the one obtained without that line (and the jar itself when it is the only line); and
  the last line that sets a name decides its value, for every name other than
  \<^verbatim>\<open>__proto__\<close>, and for that name too when the jar holds it already. In a jar that does
  not hold \<^verbatim>\<open>__proto__\<close> the lines that set this name store nothing: the name is not in
  the jar afterwards, whatever the lines, where the claim has the last value.
\<close>

theorem C10_cookies_only_added_last_wins:
  "dom jar \<subseteq> dom (updateCookiesFromHeaders jar hdrs)
   \<and> updateCookiesFromHeaders jar None = jar
   \<and> (cookieNameValue c = [] \<or> cookieValue c = [] \<longrightarrow>
        updateCookiesFromHeaders jar (Some [c]) = jar
        \<and> updateCookiesFromHeaders jar (Some (xs @ c # ys)) =
            updateCookiesFromHeaders jar (Some (xs @ ys)))
   \<and> (cookieNameValue c \<noteq> [] \<and> cookieValue c \<noteq> []
        \<and> (trim (cookieNameValue c) \<noteq> ''__proto__'' \<or> jar ''__proto__'' \<noteq> None)
        \<and> (\<forall>d \<in> set ys. cookieNameValue d \<noteq> [] \<and> cookieValue d \<noteq> []
              \<longrightarrow> trim (cookieNameValue d) \<noteq> trim (cookieNameValue c)) \<longrightarrow>
        updateCookiesFromHeaders jar (Some (xs @ c # ys)) (trim (cookieNameValue c)) =
          Some (trim (cookieValue c)))
   \<and> (jar ''__proto__'' = None \<longrightarrow>
        updateCookiesFromHeaders jar hdrs ''__proto__'' = None)"
proof (intro conjI impI)
  show "dom jar \<subseteq> dom (updateCookiesFromHeaders jar hdrs)"
    by (cases hdrs) (simp_all add: updateCookiesFromHeaders_def dom_updateCookiesLoop)
  show "updateCookiesFromHeaders jar None = jar"
    by (simp add: updateCookiesFromHeaders_def)
next
  assume skip: "cookieNameValue c = [] \<or> cookieValue c = []"
  show "updateCookiesFromHeaders jar (Some [c]) = jar"
    using skip by (simp add: updateCookiesFromHeaders_def updateCookie_skip)
  show "updateCookiesFromHeaders jar (Some (xs @ c # ys)) =
        updateCookiesFromHeaders jar (Some (xs @ ys))"
    using skip
    by (simp add: updateCookiesFromHeaders_def updateCookiesLoop_append updateCookie_skip)
next
  assume set: "cookieNameValue c \<noteq> [] \<and> cookieValue c \<noteq> []
        \<and> (trim (cookieNameValue c) \<noteq> ''__proto__'' \<or> jar ''__proto__'' \<noteq> None)
        \<and> (\<forall>d \<in> set ys. cookieNameValue d \<noteq> [] \<and> cookieValue d \<noteq> []
              \<longrightarrow> trim (cookieNameValue d) \<noteq> trim (cookieNameValue c))"
  let ?jar = "updateCookie (updateCookiesLoop jar xs) c"
  have own: "trim (cookieNameValue c) \<noteq> ''__proto__''
      \<or> updateCookiesLoop jar xs ''__proto__'' \<noteq> None"
    using set dom_updateCookiesLoop [of jar xs] by auto
  have "updateCookiesLoop ?jar ys (trim (cookieNameValue c)) = ?jar (trim (cookieNameValue c))"
    using set by (intro updateCookiesLoop_keeps) simp
  also have "\<dots> = Some (trim (cookieValue c))"
    using set own by (auto simp: updateCookie_def assignProperty_def)
  finally show "updateCookiesFromHeaders jar (Some (xs @ c # ys)) (trim (cookieNameValue c)) =
          Some (trim (cookieValue c))"
    by (simp add: updateCookiesFromHeaders_def updateCookiesLoop_append)
next
  assume "jar ''__proto__'' = None"
  then show "updateCookiesFromHeaders jar hdrs ''__proto__'' = None"
    by (cases hdrs) (simp_all add: updateCookiesFromHeaders_def updateCookiesLoop_proto)
qed

lemmas cookie_eval =
  cookieNameValue_def cookiePart0_def cookieValue_def trim_def isWhiteSpace_def
  assignProperty_def

theorem C10_cookies_witness:
  "cookieNameValue ''=x'' = []
   \<and> updateCookiesFromHeaders [''a'' \<mapsto> ''1''] (Some [''a=2'', ''=x'', ''b=4'']) =
       updateCookiesFromHeaders [''a'' \<mapsto> ''1''] (Some [''a=2'', ''b=4''])
   \<and> cookieNameValue ''a=3; Path=/'' \<noteq> [] \<and> cookieValue ''a=3; Path=/'' \<noteq> []
   \<and> trim (cookieNameValue ''a=3; Path=/'') \<noteq> ''__proto__''
   \<and> cookieNameValue ''b=4'' = ''b'' \<and> cookieValue ''a='' = []
   \<and> updateCookiesFromHeaders [''a'' \<mapsto> ''1'']
         (Some [''a=2'', ''a=3; Path=/'', ''b=4'', ''a='']) ''a'' = Some ''3''
   \<and> [''a'' \<mapsto> ''1''] ''__proto__'' = None
   \<and> updateCookiesFromHeaders [''a'' \<mapsto> ''1'']
         (Some [''__proto__=x; Path=/'', ''b=4'']) = [''a'' \<mapsto> ''1'', ''b'' \<mapsto> ''4'']
   \<and> updateCookiesFromHeaders Map.empty (Some [''__proto__=x'']) = Map.empty"
  using C10_cookies_only_added_last_wins
          [of "[''a'' \<mapsto> ''1'']" "Some [''__proto__=x; Path=/'', ''b=4'']"
              "''=x''" "[''a=2'']" "[''b=4'']"]
        C10_cookies_only_added_last_wins
          [of "[''a'' \<mapsto> ''1'']" "Some []" "''a=3; Path=/''" "[''a=2'']" "[''b=4'', ''a='']"]
  by (simp add: updateCookiesFromHeaders_def updateCookie_def cookie_eval)

section \<open>Properties of the regular-expression matchers\<close>

lemma lit_Some: "lit p k s = Some r \<longleftrightarrow> (\<exists>rest. s = p @ rest \<and> k rest = Some r)"
  by (auto simp: lit_def prefix_def)

lemma greedy_closed:
  assumes "\<And>a rest. rest \<noteq> [] \<Longrightarrow> cls (hd rest) \<Longrightarrow> k a rest = None"
  shows "greedy cls n k acc s =
           (if n \<le> length acc + length (takeWhile cls s)
            then k (acc @ takeWhile cls s) (dropWhile cls s) else None)"
proof (induction s arbitrary: acc)
  case Nil
  show ?case by simp
next
  case (Cons c cs)
  show ?case
  proof (cases "cls c")
    case True
    have "k acc (c # cs) = None" using True assms by simp
    with True Cons.IH [of "acc @ [c]"] show ?thesis
      by (simp split: option.splits)
  next
    case False
    then show ?thesis by simp
  qed
qed

lemma greedy_total:
  assumes "\<And>a rest. k a rest \<noteq> None"
  shows "greedy cls n k acc s =
           (if n \<le> length acc + length (takeWhile cls s)
            then k (acc @ takeWhile cls s) (dropWhile cls s) else None)"
proof (induction s arbitrary: acc)
  case Nil
  show ?case by simp
next
  case (Cons c cs)
  show ?case
  proof (cases "cls c")
    case True
    obtain r where r: "k (acc @ c # takeWhile cls cs) (dropWhile cls cs) = Some r"
      using assms [of "acc @ c # takeWhile cls cs" "dropWhile cls cs"] by auto
    show ?thesis
      using True Cons.IH [of "acc @ [c]"] r by simp

  next
    case False
    then show ?thesis by simp
  qed
qed

lemma search_None: "search m s = None \<longleftrightarrow> (\<forall>n \<le> length s. m (drop n s) = None)"
proof (induction s)
  case Nil
  show ?case by simp
next
  case (Cons c cs)
  show ?case
  proof
    assume a: "search m (c # cs) = None"
    then have h: "m (c # cs) = None" and t: "search m cs = None"
      by (auto split: option.splits)
    show "\<forall>n \<le> length (c # cs). m (drop n (c # cs)) = None"
    proof (intro allI impI)
      fix n assume "n \<le> length (c # cs)"
      then show "m (drop n (c # cs)) = None"
        using h t Cons.IH by (cases n) auto
    qed
  next
    assume a: "\<forall>n \<le> length (c # cs). m (drop n (c # cs)) = None"
    from a have "m (drop 0 (c # cs)) = None" by blast
    moreover have "\<forall>n \<le> length cs. m (drop n cs) = None"
    proof (intro allI impI)
      fix n assume "n \<le> length cs"
      then have "Suc n \<le> length (c # cs)" by simp
      with a have "m (drop (Suc n) (c # cs)) = None" by blast
      then show "m (drop n cs) = None" by simp
    qed
    ultimately show "search m (c # cs) = None"
      using Cons.IH by simp
  qed
qed

lemma search_Some:
  "search m s = Some r \<longleftrightarrow>
     (\<exists>n \<le> length s. m (drop n s) = Some r \<and> (\<forall>j < n. m (drop j s) = None))"
proof (induction s)
  case Nil
  show ?case by simp
next
  case (Cons c cs)
  show ?case
  proof (cases "m (c # cs)")
    case (Some r')
    have "(\<exists>n \<le> length (c # cs). m (drop n (c # cs)) = Some r \<and> (\<forall>j < n. m (drop j (c # cs)) = None))
          \<longleftrightarrow> r' = r"
    proof
      assume "\<exists>n \<le> length (c # cs). m (drop n (c # cs)) = Some r \<and> (\<forall>j < n. m (drop j (c # cs)) = None)"
      then obtain n where n: "m (drop n (c # cs)) = Some r" "\<forall>j < n. m (drop j (c # cs)) = None"
        by blast
      show "r' = r"
      proof (cases n)
        case 0
        with n Some show ?thesis by simp
      next
        case (Suc k)
        with n(2) have "m (drop 0 (c # cs)) = None" by blast
        with Some show ?thesis by simp
      qed
    next
      assume "r' = r"
      with Some have "m (drop 0 (c # cs)) = Some r \<and> (\<forall>j < 0. m (drop j (c # cs)) = None)" by simp
      then show "\<exists>n \<le> length (c # cs). m (drop n (c # cs)) = Some r \<and> (\<forall>j < n. m (drop j (c # cs)) = None)"
        by blast
    qed
    with Some show ?thesis by simp
  next
    case None
    have "(\<exists>n \<le> length (c # cs). m (drop n (c # cs)) = Some r \<and> (\<forall>j < n. m (drop j (c # cs)) = None))
          \<longleftrightarrow> (\<exists>n \<le> length cs. m (drop n cs) = Some r \<and> (\<forall>j < n. m (drop j cs) = None))"
      (is "?L \<longleftrightarrow> ?R")
    proof
      assume ?L
      then obtain n where n: "n \<le> length (c # cs)" "m (drop n (c # cs)) = Some r"
          "\<forall>j < n. m (drop j (c # cs)) = None" by blast
      from n(2) None obtain k where k: "n = Suc k" by (cases n) auto
      have "\<forall>j < k. m (drop j cs) = None"
      proof (intro allI impI)
        fix j assume "j < k"
        then have "Suc j < n" using k by simp
        with n(3) have "m (drop (Suc j) (c # cs)) = None" by blast
        then show "m (drop j cs) = None" by simp
      qed
      with n k show ?R by auto
    next
      assume ?R
      then obtain n where n: "n \<le> length cs" "m (drop n cs) = Some r"
          "\<forall>j < n. m (drop j cs) = None" by blast
      have "\<forall>j < Suc n. m (drop j (c # cs)) = None"
      proof (intro allI impI)
        fix j assume "j < Suc n"
        then show "m (drop j (c # cs)) = None"
          using None n(3) by (cases j) auto
      qed
      moreover have "m (drop (Suc n) (c # cs)) = Some r" using n(2) by simp
      moreover have "Suc n \<le> length (c # cs)" using n(1) by simp
      ultimately show ?L by blast
    qed
    with None Cons.IH show ?thesis by simp
  qed
qed

lemma run_split:
  "takeWhile cls s = x \<and> dropWhile cls s = y \<longleftrightarrow>
     s = x @ y \<and> (\<forall>c \<in> set x. cls c) \<and> (y = [] \<or> \<not> cls (hd y))"
proof
  assume a: "takeWhile cls s = x \<and> dropWhile cls s = y"
  then have "s = x @ y" using takeWhile_dropWhile_id [of cls s] by simp
  moreover have "\<forall>c \<in> set x. cls c" using a by (auto dest: set_takeWhileD)
  moreover have "y = [] \<or> \<not> cls (hd y)" using a hd_dropWhile [of cls s] by auto
  ultimately show "s = x @ y \<and> (\<forall>c \<in> set x. cls c) \<and> (y = [] \<or> \<not> cls (hd y))" by simp
next
  assume a: "s = x @ y \<and> (\<forall>c \<in> set x. cls c) \<and> (y = [] \<or> \<not> cls (hd y))"
  then show "takeWhile cls s = x \<and> dropWhile cls s = y"
    by (cases y) (auto simp: takeWhile_append2 dropWhile_append2)
qed

lemma lit_closed:
  "p \<noteq> [] \<Longrightarrow> \<not> cls (hd p) \<Longrightarrow> rest \<noteq> [] \<Longrightarrow> cls (hd rest) \<Longrightarrow> lit p k rest = None"
  by (cases p; cases rest) (auto simp: lit_def)

lemma greedy_lit:
  assumes "p \<noteq> []" and "\<not> cls (hd p)"
  shows "greedy cls n (\<lambda>x. lit p (k x)) [] s = Some r \<longleftrightarrow>
           (\<exists>x rest. s = x @ p @ rest \<and> n \<le> length x \<and> (\<forall>c \<in> set x. cls c) \<and> k x rest = Some r)"
    (is "?L \<longleftrightarrow> ?R")
proof -
  have g: "greedy cls n (\<lambda>x. lit p (k x)) [] s =
        (if n \<le> length (takeWhile cls s)
         then lit p (k (takeWhile cls s)) (dropWhile cls s) else None)"
    using greedy_closed [of cls "\<lambda>x. lit p (k x)" n "[]" s] assms
    by (simp add: lit_closed)
  show ?thesis
  proof
    assume ?L
    with g have n: "n \<le> length (takeWhile cls s)"
      and l: "lit p (k (takeWhile cls s)) (dropWhile cls s) = Some r"
      by (auto split: if_splits)
    from l obtain rest where rest: "dropWhile cls s = p @ rest" "k (takeWhile cls s) rest = Some r"
      by (auto simp: lit_Some)
    have "s = takeWhile cls s @ p @ rest"
      using takeWhile_dropWhile_id [of cls s] rest(1) by simp
    moreover have "\<forall>c \<in> set (takeWhile cls s). cls c" by (auto dest: set_takeWhileD)
    ultimately show ?R using n rest(2) by blast
  next
    assume ?R
    then obtain x rest where x: "s = x @ p @ rest" "n \<le> length x" "\<forall>c \<in> set x. cls c"
        "k x rest = Some r" by blast
    have "takeWhile cls s = x \<and> dropWhile cls s = p @ rest"
      using x(1,3) assms by (subst run_split) (cases p, auto)
    with g x(2,4) show ?L by (simp add: lit_def)
  qed
qed

lemma greedy_final:
  "greedy cls n (\<lambda>x rest. Some (f x rest)) [] s = Some r \<longleftrightarrow>
     (\<exists>x rest. s = x @ rest \<and> n \<le> length x \<and> (\<forall>c \<in> set x. cls c)
        \<and> (rest = [] \<or> \<not> cls (hd rest)) \<and> r = f x rest)"
    (is "?L \<longleftrightarrow> ?R")
proof -
  have g: "greedy cls n (\<lambda>x rest. Some (f x rest)) [] s =
        (if n \<le> length (takeWhile cls s)
         then Some (f (takeWhile cls s) (dropWhile cls s)) else None)"
    using greedy_total [of "\<lambda>x rest. Some (f x rest)" cls n "[]" s] by simp
  show ?thesis
  proof
    assume ?L
    with g have n: "n \<le> length (takeWhile cls s)"
      and r: "r = f (takeWhile cls s) (dropWhile cls s)"
      by (auto split: if_splits)
    have "s = takeWhile cls s @ dropWhile cls s \<and> (\<forall>c \<in> set (takeWhile cls s). cls c)
          \<and> (dropWhile cls s = [] \<or> \<not> cls (hd (dropWhile cls s)))"
      using run_split [of cls s "takeWhile cls s" "dropWhile cls s"] by simp
    with n r show ?R by blast
  next
    assume ?R
    then obtain x rest where x: "s = x @ rest" "n \<le> length x" "\<forall>c \<in> set x. cls c"
        "rest = [] \<or> \<not> cls (hd rest)" "r = f x rest" by blast
    have "takeWhile cls s = x \<and> dropWhile cls s = rest"
      using x(1,3,4) by (subst run_split) simp
    with g x(2,5) show ?L by simp
  qed
qed

lemma search_Some_split:
  "search m s = Some r \<longleftrightarrow>
     (\<exists>pre suf. s = pre @ suf \<and> m suf = Some r
        \<and> (\<forall>pre' suf'. s = pre' @ suf' \<and> m suf' \<noteq> None \<longrightarrow> length pre \<le> length pre'))"
    (is "?L \<longleftrightarrow> ?R")
proof
  assume ?L
  then obtain n where n: "n \<le> length s" "m (drop n s) = Some r" "\<forall>j < n. m (drop j s) = None"
    using search_Some [THEN iffD1, of m s r] by blast
  have "\<forall>pre' suf'. s = pre' @ suf' \<and> m suf' \<noteq> None \<longrightarrow> length (take n s) \<le> length pre'"
  proof (intro allI impI)
    fix pre' suf' assume a: "s = pre' @ suf' \<and> m suf' \<noteq> None"
    then have "m (drop (length pre') s) \<noteq> None" by simp
    with n(3) have "\<not> length pre' < n" by auto
    then show "length (take n s) \<le> length pre'" by simp
  qed
  note left = this
  show ?R
  proof (intro exI conjI)
    show "s = take n s @ drop n s" by simp
    show "m (drop n s) = Some r" by (rule n(2))
    show "\<forall>pre' suf'. s = pre' @ suf' \<and> m suf' \<noteq> None \<longrightarrow> length (take n s) \<le> length pre'"
      by (rule left)
  qed
next
  assume ?R
  then obtain pre suf where p: "s = pre @ suf" "m suf = Some r"
     "\<forall>pre' suf'. s = pre' @ suf' \<and> m suf' \<noteq> None \<longrightarrow> length pre \<le> length pre'" by blast
  have "\<forall>j < length pre. m (drop j s) = None"
  proof (intro allI impI)
    fix j assume j: "j < length pre"
    show "m (drop j s) = None"
    proof (rule ccontr)
      assume "m (drop j s) \<noteq> None"
      then have "length pre \<le> length (take j s)"
        using p(3) [rule_format, of "take j s" "drop j s"] by simp
      with j p(1) show False by simp
    qed
  qed
  note none = this
  show ?L
  proof (rule search_Some [THEN iffD2], intro exI conjI)
    show "length pre \<le> length s" using p(1) by simp
    show "m (drop (length pre) s) = Some r" using p(1,2) by simp
    show "\<forall>j < length pre. m (drop j s) = None" by (rule none)
  qed
qed

lemma search_None_split:
  "search m s = None \<longleftrightarrow> (\<forall>pre suf. s = pre @ suf \<longrightarrow> m suf = None)"
proof
  assume a: "search m s = None"
  show "\<forall>pre suf. s = pre @ suf \<longrightarrow> m suf = None"
  proof (intro allI impI)
    fix pre suf assume "s = pre @ suf"
    then have "m (drop (length pre) s) = None"
      using a [THEN search_None [THEN iffD1], rule_format, of "length pre"] by simp
    then show "m suf = None" using \<open>s = pre @ suf\<close> by simp
  qed
next
  assume a: "\<forall>pre suf. s = pre @ suf \<longrightarrow> m suf = None"
  have "\<forall>n \<le> length s. m (drop n s) = None"
  proof (intro allI impI)
    fix n
    show "m (drop n s) = None"
      using a [rule_format, of "take n s" "drop n s"] by simp
  qed
  then show "search m s = None" by (rule search_None [THEN iffD2])
qed

lemma search_leftmost:
  assumes "s = pre0 @ suf0" and "m suf0 = Some r0"
  shows "\<exists>pre suf r. s = pre @ suf \<and> m suf = Some r \<and> search m s = Some r
           \<and> (\<forall>pre' suf'. s = pre' @ suf' \<and> m suf' \<noteq> None \<longrightarrow> length pre \<le> length pre')"
proof -
  have "search m s \<noteq> None"
    using assms search_None_split [of m s] by auto
  then obtain r where r: "search m s = Some r" by auto
  then obtain pre suf where "s = pre @ suf" "m suf = Some r"
      "\<forall>pre' suf'. s = pre' @ suf' \<and> m suf' \<noteq> None \<longrightarrow> length pre \<le> length pre'"
    using search_Some_split [THEN iffD1, of m s r] by auto
  with r show ?thesis by (intro exI [of _ pre] exI [of _ suf] exI [of _ r]) simp
qed

section \<open>Properties of the confirmation-token extractor\<close>

lemmas charclass_defs = isTokenChar_def isDigit_def isUpper_def isLower_def isWhiteSpace_def

lemma one_le_length: "Suc 0 \<le> length x \<longleftrightarrow> x \<noteq> []"
  by (cases x) simp_all

lemma confirmLinkMatcher_iff:
  "confirmLinkMatcher suf = Some tok \<longleftrightarrow>
     tok \<noteq> [] \<and> (\<forall>c \<in> set tok. isTokenChar c)
     \<and> (\<exists>post. suf = ''confirm='' @ tok @ ''&amp;id='' @ post)"
proof -
  have amp: "\<not> isTokenChar (hd ''&amp;id='')" by (simp add: charclass_defs)
  have g: "\<And>s. greedy isTokenChar 1 (\<lambda>tok. lit ''&amp;id='' (\<lambda>_. Some tok)) [] s = Some tok \<longleftrightarrow>
       (\<exists>x rest. s = x @ ''&amp;id='' @ rest \<and> 1 \<le> length x \<and> (\<forall>c \<in> set x. isTokenChar c)
          \<and> Some x = Some tok)"
    using greedy_lit [of "''&amp;id=''" isTokenChar 1 "\<lambda>x _. Some x" _ tok] amp by simp
  show ?thesis
    unfolding confirmLinkMatcher_def lit_Some g
    by (auto simp: one_le_length)
qed

lemma confirmInputMatcher_iff:
  "confirmInputMatcher suf = Some tok \<longleftrightarrow>
     tok \<noteq> [] \<and> (\<forall>c \<in> set tok. isTokenChar c)
     \<and> (\<exists>ws post. ws \<noteq> [] \<and> (\<forall>c \<in> set ws. isWhiteSpace c)
           \<and> suf = ''name=\"confirm\"'' @ ws @ ''value=\"'' @ tok @ ''\"'' @ post)"
proof -
  have q: "\<not> isTokenChar (hd ''\"'')" and v: "\<not> isWhiteSpace (hd ''value=\"'')"
    by (simp_all add: charclass_defs)
  have g2: "\<And>s. greedy isTokenChar 1 (\<lambda>tok. lit ''\"'' (\<lambda>_. Some tok)) [] s = Some tok \<longleftrightarrow>
       (\<exists>x rest. s = x @ ''\"'' @ rest \<and> 1 \<le> length x \<and> (\<forall>c \<in> set x. isTokenChar c)
          \<and> Some x = Some tok)"
    using greedy_lit [of "''\"''" isTokenChar 1 "\<lambda>x _. Some x" _ tok] q by simp
  have g1: "\<And>s. greedy isWhiteSpace 1 (\<lambda>_. lit ''value=\"''
               (greedy isTokenChar 1 (\<lambda>tok. lit ''\"'' (\<lambda>_. Some tok)) [])) [] s = Some tok \<longleftrightarrow>
       (\<exists>x rest. s = x @ ''value=\"'' @ rest \<and> 1 \<le> length x \<and> (\<forall>c \<in> set x. isWhiteSpace c)
          \<and> greedy isTokenChar 1 (\<lambda>tok. lit ''\"'' (\<lambda>_. Some tok)) [] rest = Some tok)"
    using greedy_lit [of "''value=\"''" isWhiteSpace 1
        "\<lambda>_. greedy isTokenChar 1 (\<lambda>tok. lit ''\"'' (\<lambda>_. Some tok)) []" _ tok] v by simp
  show ?thesis
    unfolding confirmInputMatcher_def lit_Some g1 g2
    by (auto simp: one_le_length)
qed

lemma linkPatternAt_iff:
  "linkPatternAt html pre tok \<longleftrightarrow> (\<exists>suf. html = pre @ suf \<and> confirmLinkMatcher suf = Some tok)"
  unfolding linkPatternAt_def confirmLinkMatcher_iff by auto

lemma formPatternAt_iff:
  "formPatternAt html pre tok \<longleftrightarrow> (\<exists>suf. html = pre @ suf \<and> confirmInputMatcher suf = Some tok)"
  unfolding formPatternAt_def confirmInputMatcher_iff by auto

lemma no_occurrence_iff:
  "(\<forall>pre r. \<not> (\<exists>suf. s = pre @ suf \<and> m suf = Some r)) \<longleftrightarrow> search m s = None"
proof
  assume a: "\<forall>pre r. \<not> (\<exists>suf. s = pre @ suf \<and> m suf = Some r)"
  have "\<forall>pre suf. s = pre @ suf \<longrightarrow> m suf = None"
  proof (intro allI impI)
    fix pre suf assume "s = pre @ suf"
    with a have "\<forall>r. m suf \<noteq> Some r" by auto
    then show "m suf = None" by (cases "m suf") auto
  qed
  then show "search m s = None" by (rule search_None_split [THEN iffD2])
next
  assume "search m s = None"
  then have "\<forall>pre suf. s = pre @ suf \<longrightarrow> m suf = None" by (rule search_None_split [THEN iffD1])
  then show "\<forall>pre r. \<not> (\<exists>suf. s = pre @ suf \<and> m suf = Some r)" by auto
qed

lemma no_link_iff:
  "(\<forall>pre tok. \<not> linkPatternAt html pre tok) \<longleftrightarrow> search confirmLinkMatcher html = None"
  unfolding linkPatternAt_iff by (rule no_occurrence_iff)

lemma no_form_iff:
  "(\<forall>pre tok. \<not> formPatternAt html pre tok) \<longleftrightarrow> search confirmInputMatcher html = None"
  unfolding formPatternAt_iff by (rule no_occurrence_iff)

lemma link_leftmost:
  assumes "linkPatternAt html pre0 tok0"
  shows "\<exists>pre tok. linkPatternAt html pre tok
           \<and> (\<forall>pre' tok'. linkPatternAt html pre' tok' \<longrightarrow> length pre \<le> length pre')
           \<and> search confirmLinkMatcher html = Some tok"
proof -
  from assms obtain suf0 where "html = pre0 @ suf0" "confirmLinkMatcher suf0 = Some tok0"
    unfolding linkPatternAt_iff by auto
  from search_leftmost [where m = confirmLinkMatcher, OF this] obtain pre suf tok where
    p: "html = pre @ suf" "confirmLinkMatcher suf = Some tok"
       "search confirmLinkMatcher html = Some tok"
       "\<forall>pre' suf'. html = pre' @ suf' \<and> confirmLinkMatcher suf' \<noteq> None \<longrightarrow> length pre \<le> length pre'"
    by auto
  have "linkPatternAt html pre tok" using p(1,2) unfolding linkPatternAt_iff by auto
  moreover have "\<forall>pre' tok'. linkPatternAt html pre' tok' \<longrightarrow> length pre \<le> length pre'"
    using p(4) unfolding linkPatternAt_iff by auto
  ultimately show ?thesis using p(3) by auto
qed

lemma form_leftmost:
  assumes "formPatternAt html pre0 tok0"
  shows "\<exists>pre tok. formPatternAt html pre tok
           \<and> (\<forall>pre' tok'. formPatternAt html pre' tok' \<longrightarrow> length pre \<le> length pre')
           \<and> search confirmInputMatcher html = Some tok"
proof -
  from assms obtain suf0 where "html = pre0 @ suf0" "confirmInputMatcher suf0 = Some tok0"
    unfolding formPatternAt_iff by auto
  from search_leftmost [where m = confirmInputMatcher, OF this] obtain pre suf tok where
    p: "html = pre @ suf" "confirmInputMatcher suf = Some tok"
       "search confirmInputMatcher html = Some tok"
       "\<forall>pre' suf'. html = pre' @ suf' \<and> confirmInputMatcher suf' \<noteq> None \<longrightarrow> length pre \<le> length pre'"
    by auto
  have "formPatternAt html pre tok" using p(1,2) unfolding formPatternAt_iff by auto
  moreover have "\<forall>pre' tok'. formPatternAt html pre' tok' \<longrightarrow> length pre \<le> length pre'"
    using p(4) unfolding formPatternAt_iff by auto
  ultimately show ?thesis using p(3) by auto
qed

lemma search_matcher_sound:
  assumes "search m s = Some r"
  shows "\<exists>pre suf. s = pre @ suf \<and> m suf = Some r"
  using search_Some_split [THEN iffD1, OF assms] by auto

text \<open>
  Claim C7. \<^verbatim>\<open>extractConfirmToken\<close> is a function of the HTML text alone. When the link
  pattern occurs, it returns the token of its leftmost occurrence, whether or not the
  form-field pattern occurs too; when the link pattern does not occur and the form-field
  pattern does, it returns the token of the leftmost form field; when neither occurs it
  returns none. Every token it returns is a non-empty text of letters, digits and
  underscores.
\<close>

theorem C7_extractConfirmToken:
  "((\<exists>pre tok. linkPatternAt html pre tok) \<longrightarrow>
      (\<exists>pre tok. linkPatternAt html pre tok
         \<and> (\<forall>pre' tok'. linkPatternAt html pre' tok' \<longrightarrow> length pre \<le> length pre')
         \<and> extractConfirmToken html = Some tok))
   \<and> ((\<forall>pre tok. \<not> linkPatternAt html pre tok) \<and> (\<exists>pre tok. formPatternAt html pre tok) \<longrightarrow>
      (\<exists>pre tok. formPatternAt html pre tok
         \<and> (\<forall>pre' tok'. formPatternAt html pre' tok' \<longrightarrow> length pre \<le> length pre')
         \<and> extractConfirmToken html = Some tok))
   \<and> ((\<forall>pre tok. \<not> linkPatternAt html pre tok) \<and> (\<forall>pre tok. \<not> formPatternAt html pre tok) \<longrightarrow>
      extractConfirmToken html = None)
   \<and> (extractConfirmToken html = Some t \<longrightarrow> t \<noteq> [] \<and> (\<forall>c \<in> set t. isTokenChar c))"
proof (intro conjI impI)
  assume "\<exists>pre tok. linkPatternAt html pre tok"
  then obtain pre0 tok0 where "linkPatternAt html pre0 tok0" by auto
  from link_leftmost [OF this] show "\<exists>pre tok. linkPatternAt html pre tok
         \<and> (\<forall>pre' tok'. linkPatternAt html pre' tok' \<longrightarrow> length pre \<le> length pre')
         \<and> extractConfirmToken html = Some tok"
    by (auto simp: extractConfirmToken_def)
next
  assume a: "(\<forall>pre tok. \<not> linkPatternAt html pre tok) \<and> (\<exists>pre tok. formPatternAt html pre tok)"
  then have n: "search confirmLinkMatcher html = None" by (simp add: no_link_iff)
  from a obtain pre0 tok0 where "formPatternAt html pre0 tok0" by auto
  from form_leftmost [OF this] n show "\<exists>pre tok. formPatternAt html pre tok
         \<and> (\<forall>pre' tok'. formPatternAt html pre' tok' \<longrightarrow> length pre \<le> length pre')
         \<and> extractConfirmToken html = Some tok"
    by (auto simp: extractConfirmToken_def)
next
  assume "(\<forall>pre tok. \<not> linkPatternAt html pre tok) \<and> (\<forall>pre tok. \<not> formPatternAt html pre tok)"
  then show "extractConfirmToken html = None"
    by (simp add: no_link_iff no_form_iff extractConfirmToken_def)
next
  assume a: "extractConfirmToken html = Some t"
  have "confirmLinkMatcher suf = Some t \<or> confirmInputMatcher suf = Some t
          \<Longrightarrow> t \<noteq> [] \<and> (\<forall>c \<in> set t. isTokenChar c)" for suf
    by (auto simp: confirmLinkMatcher_iff confirmInputMatcher_iff)
  moreover from a have "\<exists>suf. confirmLinkMatcher suf = Some t \<or> confirmInputMatcher suf = Some t"
    by (auto simp: extractConfirmToken_def split: option.splits dest: search_matcher_sound)
  ultimately show "t \<noteq> []" and "\<forall>c \<in> set t. isTokenChar c" by auto
qed

lemmas regex_eval = lit_def confirmLinkMatcher_def confirmInputMatcher_def

theorem C7_extractConfirmToken_witness:
  "linkPatternAt ''confirm=AbC_1&amp;id=x <input name=\"confirm\" value=\"zz9\">'' [] ''AbC_1''
   \<and> formPatternAt ''confirm=AbC_1&amp;id=x <input name=\"confirm\" value=\"zz9\">''
         ''confirm=AbC_1&amp;id=x <input '' ''zz9''
   \<and> extractConfirmToken ''confirm=AbC_1&amp;id=x <input name=\"confirm\" value=\"zz9\">'' =
         Some ''AbC_1''
   \<and> search confirmLinkMatcher ''<input name=\"confirm\" value=\"zz9\">'' = None
   \<and> formPatternAt ''<input name=\"confirm\" value=\"zz9\">'' ''<input '' ''zz9''
   \<and> extractConfirmToken ''<input name=\"confirm\" value=\"zz9\">'' = Some ''zz9''
   \<and> search confirmInputMatcher ''<html>'' = None
   \<and> extractConfirmToken ''<html>'' = None"
proof -
  let ?h1 = "''confirm=AbC_1&amp;id=x <input name=\"confirm\" value=\"zz9\">''"
  let ?h2 = "''<input name=\"confirm\" value=\"zz9\">''"
  have l1: "linkPatternAt ?h1 [] ''AbC_1''"
    by (simp add: linkPatternAt_def charclass_defs)
  have f1: "formPatternAt ?h1 ''confirm=AbC_1&amp;id=x <input '' ''zz9''"
    unfolding formPatternAt_def
    by (intro conjI exI [of _ "'' ''"] exI [of _ "''>''"]) (simp_all add: charclass_defs)
  have n2: "search confirmLinkMatcher ?h2 = None"
    by (simp add: regex_eval)
  have f2: "formPatternAt ?h2 ''<input '' ''zz9''"
    unfolding formPatternAt_def
    by (intro conjI exI [of _ "'' ''"] exI [of _ "''>''"]) (simp_all add: charclass_defs)
  have n3: "search confirmLinkMatcher ''<html>'' = None" "search confirmInputMatcher ''<html>'' = None"
    by (simp_all add: regex_eval)
  have e1: "extractConfirmToken ?h1 = Some ''AbC_1''"
    using C7_extractConfirmToken [of ?h1] l1 by (simp add: extractConfirmToken_def regex_eval charclass_defs)
  have e2: "extractConfirmToken ?h2 = Some ''zz9''"
    using C7_extractConfirmToken [of ?h2] n2 f2
    by (simp add: extractConfirmToken_def regex_eval charclass_defs)
  have e3: "extractConfirmToken ''<html>'' = None"
    using C7_extractConfirmToken [of "''<html>''"] n3
    by (simp add: no_link_iff no_form_iff)
  from l1 f1 e1 n2 f2 e2 n3 e3 show ?thesis by simp
qed

section \<open>Properties of unique file names\<close>












section \<open>Properties of the resource resolver\<close>

lemma search_lit_includes: "search (lit p k) s = Some r \<Longrightarrow> includesStr s p"
proof (induction s)
  case Nil
  then show ?case by (simp add: lit_def split: if_splits)
next
  case (Cons c cs)
  show ?case
  proof (cases "lit p k (c # cs)")
    case None
    with Cons show ?thesis by simp
  next
    case (Some r')
    then have "prefix p (c # cs)" by (simp add: lit_def split: if_splits)
    then show ?thesis by simp
  qed
qed

lemma guarded_search:
  "(if includesStr s p then search (lit p k) s else None) = search (lit p k) s"
  by (cases "search (lit p k) s") (auto dest: search_lit_includes)

lemma occurrence_leftmost:
  assumes iff: "\<And>pre r. P pre r \<longleftrightarrow> (\<exists>suf. s = pre @ suf \<and> m suf = Some r)"
    and occ: "P pre0 r0"
  shows "\<exists>pre r. P pre r \<and> (\<forall>pre' r'. P pre' r' \<longrightarrow> length pre \<le> length pre')
           \<and> search m s = Some r"
proof -
  from occ obtain suf0 where "s = pre0 @ suf0" "m suf0 = Some r0"
    unfolding iff by auto
  from search_leftmost [where m = m, OF this] obtain pre suf r where
    p: "s = pre @ suf" "m suf = Some r" "search m s = Some r"
       "\<forall>pre' suf'. s = pre' @ suf' \<and> m suf' \<noteq> None \<longrightarrow> length pre \<le> length pre'"
    by auto
  have "P pre r" using p(1,2) unfolding iff by auto
  moreover have "\<forall>pre' r'. P pre' r' \<longrightarrow> length pre \<le> length pre'"
    using p(4) unfolding iff by auto
  ultimately show ?thesis using p(3) by auto
qed

lemma occurrence_none:
  assumes iff: "\<And>pre r. P pre r \<longleftrightarrow> (\<exists>suf. s = pre @ suf \<and> m suf = Some r)"
  shows "(\<forall>pre r. \<not> P pre r) \<longleftrightarrow> search m s = None"
  unfolding iff by (rule no_occurrence_iff)

lemma idMatcher_iff:
  "lit marker (greedy isIdChar 1 (\<lambda>i _. Some i) []) suf = Some i \<longleftrightarrow>
     i \<noteq> [] \<and> (\<forall>c \<in> set i. isIdChar c)
     \<and> (\<exists>post. suf = marker @ i @ post \<and> (post = [] \<or> \<not> isIdChar (hd post)))"
  unfolding lit_Some greedy_final by (auto simp: one_le_length)

lemma idPatternAt_iff:
  "idPatternAt marker path pre i \<longleftrightarrow>
     (\<exists>suf. path = pre @ suf \<and> lit marker (greedy isIdChar 1 (\<lambda>i _. Some i) []) suf = Some i)"
  unfolding idPatternAt_def idMatcher_iff by auto

lemma docWordMatcher_iff:
  "lit ''/d/'' (greedy isIdChar 1 (\<lambda>i _. Some (w, i)) []) suf = Some (w', i) \<longleftrightarrow>
     w' = w \<and> i \<noteq> [] \<and> (\<forall>c \<in> set i. isIdChar c)
     \<and> (\<exists>post. suf = ''/d/'' @ i @ post \<and> (post = [] \<or> \<not> isIdChar (hd post)))"
  unfolding lit_Some greedy_final by (auto simp: one_le_length)

lemma alts_SomeD:
  "alts ws k s = Some r \<Longrightarrow> \<exists>x \<in> set ws. lit x (k x) s = Some r"
  by (induction ws) (auto split: option.splits)

lemma docIdMatcher_iff:
  "docIdMatcher suf = Some (w, i) \<longleftrightarrow>
     w \<in> set [''document'', ''spreadsheets'', ''presentation'', ''drawings'']
     \<and> i \<noteq> [] \<and> (\<forall>c \<in> set i. isIdChar c)
     \<and> (\<exists>post. suf = ''/'' @ w @ ''/d/'' @ i @ post \<and> (post = [] \<or> \<not> isIdChar (hd post)))"
    (is "?L \<longleftrightarrow> ?R")
proof
  let ?K = "\<lambda>w. lit ''/d/'' (greedy isIdChar 1 (\<lambda>i _. Some (w, i)) [])"
  assume ?L
  then obtain rest where rest: "suf = ''/'' @ rest"
      "alts [''document'', ''spreadsheets'', ''presentation'', ''drawings''] ?K rest = Some (w, i)"
    unfolding docIdMatcher_def lit_Some by auto
  from alts_SomeD [OF rest(2)] obtain x where
    x: "x \<in> set [''document'', ''spreadsheets'', ''presentation'', ''drawings'']"
       "lit x (?K x) rest = Some (w, i)" by auto
  from x(2) obtain rest2 where rest2: "rest = x @ rest2" "?K x rest2 = Some (w, i)"
    unfolding lit_Some by auto
  from rest2(2) have "w = x \<and> i \<noteq> [] \<and> (\<forall>c \<in> set i. isIdChar c)
     \<and> (\<exists>post. rest2 = ''/d/'' @ i @ post \<and> (post = [] \<or> \<not> isIdChar (hd post)))"
    by (rule docWordMatcher_iff [THEN iffD1])
  with x(1) rest(1) rest2(1) show ?R by auto
next
  let ?K = "\<lambda>w. lit ''/d/'' (greedy isIdChar 1 (\<lambda>i _. Some (w, i)) [])"
  assume r: ?R
  then obtain post where post: "suf = ''/'' @ w @ ''/d/'' @ i @ post"
      "post = [] \<or> \<not> isIdChar (hd post)" by auto
  have k: "?K w (''/d/'' @ i @ post) = Some (w, i)"
    using r post(2) by (intro docWordMatcher_iff [THEN iffD2]) auto
  have "alts [''document'', ''spreadsheets'', ''presentation'', ''drawings''] ?K
          (w @ ''/d/'' @ i @ post) = Some (w, i)"
  proof -
    consider "w = ''document''" | "w = ''spreadsheets''" | "w = ''presentation''" | "w = ''drawings''"
      using r by auto
    then show ?thesis
    proof cases
      case 1
      with k show ?thesis by (simp add: lit_def)
    next
      case 2
      with k show ?thesis by (simp add: lit_def)
    next
      case 3
      with k show ?thesis by (simp add: lit_def)
    next
      case 4
      with k show ?thesis by (simp add: lit_def)
    qed
  qed
  then show ?L unfolding docIdMatcher_def post(1) by (simp add: lit_def)
qed

lemma docPatternAt_iff:
  "docPatternAt path pre w i \<longleftrightarrow> (\<exists>suf. path = pre @ suf \<and> docIdMatcher suf = Some (w, i))"
  unfolding docPatternAt_def idPatternAt_def docIdMatcher_iff by auto

lemma typeMap_docKind:
  "w \<in> set [''document'', ''spreadsheets'', ''presentation'', ''drawings''] \<Longrightarrow>
     typeMap w = Some (docKind w)"
  by (auto simp: typeMap_def docKind_def)

lemma file_guard:
  "(if includesStr path ''/file/d/'' then search fileIdMatcher path else None) =
     search fileIdMatcher path"
  unfolding fileIdMatcher_def by (rule guarded_search)

lemma folder_guard:
  "(if includesStr path ''/drive/folders/'' then search folderIdMatcher path else None) =
     search folderIdMatcher path"
  unfolding folderIdMatcher_def by (rule guarded_search)

lemma file_branch:
  assumes "newURL url = Some u" and "search fileIdMatcher (pathname u) = Some i"
  shows "parseGoogleDriveUrl newURL url =
           Some \<lparr>pu_id = i, pu_type = File,
                 pu_resourceKey = orUndefined (searchParamsGet u ''resourcekey'')\<rparr>"
  unfolding parseGoogleDriveUrl_def parseUrlObject_def Let_def file_guard
  using assms by simp

lemma folder_branch:
  assumes "newURL url = Some u" and "search fileIdMatcher (pathname u) = None"
    and "search folderIdMatcher (pathname u) = Some i"
  shows "parseGoogleDriveUrl newURL url =
           Some \<lparr>pu_id = i, pu_type = Folder,
                 pu_resourceKey = orUndefined (searchParamsGet u ''resourcekey'')\<rparr>"
  unfolding parseGoogleDriveUrl_def parseUrlObject_def Let_def file_guard folder_guard
  using assms by simp

lemma doc_branch:
  assumes "newURL url = Some u" and "search fileIdMatcher (pathname u) = None"
    and "search folderIdMatcher (pathname u) = None"
    and "includesStr (hostname u) ''docs.google.com''"
    and "search docIdMatcher (pathname u) = Some (w, i)"
  shows "parseGoogleDriveUrl newURL url =
           Some \<lparr>pu_id = i, pu_type = (case typeMap w of Some t \<Rightarrow> t | None \<Rightarrow> Unknown),
                 pu_resourceKey = orUndefined (searchParamsGet u ''resourcekey'')\<rparr>"
  unfolding parseGoogleDriveUrl_def parseUrlObject_def Let_def file_guard folder_guard
  using assms by simp

text \<open>
  Claim C5, as the code has it. For a URL that parses, the path patterns are tried in a
  fixed order and the first that matches decides: when the path contains \<^verbatim>\<open>/file/d/<id>\<close>
  the result is the id of its leftmost occurrence with kind file; otherwise, when the
  path contains \<^verbatim>\<open>/drive/folders/<id>\<close>, that id with kind folder; otherwise, when the host
  name contains \<^verbatim>\<open>docs.google.com\<close> and the path contains
  \<^verbatim>\<open>/(document|spreadsheets|presentation|drawings)/d/<id>\<close>, that id with the kind of the
  word. In each case the access key is the \<^verbatim>\<open>resourcekey\<close> query parameter when it is present
  and not empty, and there is no access key otherwise.
\<close>

theorem C5_parseGoogleDriveUrl_priority:
  "newURL url = Some u \<longrightarrow>
   ((\<exists>pre i. idPatternAt ''/file/d/'' (pathname u) pre i) \<longrightarrow>
      (\<exists>pre i. idPatternAt ''/file/d/'' (pathname u) pre i
         \<and> (\<forall>pre' i'. idPatternAt ''/file/d/'' (pathname u) pre' i' \<longrightarrow> length pre \<le> length pre')
         \<and> parseGoogleDriveUrl newURL url =
             Some \<lparr>pu_id = i, pu_type = File,
                   pu_resourceKey = orUndefined (searchParamsGet u ''resourcekey'')\<rparr>))
   \<and> ((\<forall>pre i. \<not> idPatternAt ''/file/d/'' (pathname u) pre i)
       \<and> (\<exists>pre i. idPatternAt ''/drive/folders/'' (pathname u) pre i) \<longrightarrow>
      (\<exists>pre i. idPatternAt ''/drive/folders/'' (pathname u) pre i
         \<and> (\<forall>pre' i'. idPatternAt ''/drive/folders/'' (pathname u) pre' i' \<longrightarrow> length pre \<le> length pre')
         \<and> parseGoogleDriveUrl newURL url =
             Some \<lparr>pu_id = i, pu_type = Folder,
                   pu_resourceKey = orUndefined (searchParamsGet u ''resourcekey'')\<rparr>))
   \<and> ((\<forall>pre i. \<not> idPatternAt ''/file/d/'' (pathname u) pre i)
       \<and> (\<forall>pre i. \<not> idPatternAt ''/drive/folders/'' (pathname u) pre i)
       \<and> includesStr (hostname u) ''docs.google.com''
       \<and> (\<exists>pre w i. docPatternAt (pathname u) pre w i) \<longrightarrow>
      (\<exists>pre w i. docPatternAt (pathname u) pre w i
         \<and> (\<forall>pre' w' i'. docPatternAt (pathname u) pre' w' i' \<longrightarrow> length pre \<le> length pre')
         \<and> parseGoogleDriveUrl newURL url =
             Some \<lparr>pu_id = i, pu_type = docKind w,
                   pu_resourceKey = orUndefined (searchParamsGet u ''resourcekey'')\<rparr>))
   \<and> (searchParamsGet u ''resourcekey'' = Some k \<and> k \<noteq> [] \<longrightarrow>
        orUndefined (searchParamsGet u ''resourcekey'') = Some k)
   \<and> (searchParamsGet u ''resourcekey'' = None \<or> searchParamsGet u ''resourcekey'' = Some [] \<longrightarrow>
        orUndefined (searchParamsGet u ''resourcekey'') = None)"
proof (intro impI conjI)
  assume u: "newURL url = Some u"
  assume "\<exists>pre i. idPatternAt ''/file/d/'' (pathname u) pre i"
  then obtain pre0 i0 where "idPatternAt ''/file/d/'' (pathname u) pre0 i0" by auto
  from occurrence_leftmost [where P = "idPatternAt ''/file/d/'' (pathname u)"
      and m = "lit ''/file/d/'' (greedy isIdChar 1 (\<lambda>i _. Some i) [])", OF idPatternAt_iff this]
  obtain pre i where p: "idPatternAt ''/file/d/'' (pathname u) pre i"
      "\<forall>pre' i'. idPatternAt ''/file/d/'' (pathname u) pre' i' \<longrightarrow> length pre \<le> length pre'"
      "search fileIdMatcher (pathname u) = Some i"
    unfolding fileIdMatcher_def by auto
  from file_branch [where newURL = newURL and url = url, OF u p(3)] p(1,2)
  show "\<exists>pre i. idPatternAt ''/file/d/'' (pathname u) pre i
         \<and> (\<forall>pre' i'. idPatternAt ''/file/d/'' (pathname u) pre' i' \<longrightarrow> length pre \<le> length pre')
         \<and> parseGoogleDriveUrl newURL url =
             Some \<lparr>pu_id = i, pu_type = File,
                   pu_resourceKey = orUndefined (searchParamsGet u ''resourcekey'')\<rparr>"
    by (intro exI [of _ pre] exI [of _ i]) simp
next
  assume u: "newURL url = Some u"
  assume a: "(\<forall>pre i. \<not> idPatternAt ''/file/d/'' (pathname u) pre i)
       \<and> (\<exists>pre i. idPatternAt ''/drive/folders/'' (pathname u) pre i)"
  then have nofile: "search fileIdMatcher (pathname u) = None"
    unfolding fileIdMatcher_def
    using occurrence_none [where P = "idPatternAt ''/file/d/'' (pathname u)"
      and m = "lit ''/file/d/'' (greedy isIdChar 1 (\<lambda>i _. Some i) [])", OF idPatternAt_iff]
    by simp
  from a obtain pre0 i0 where "idPatternAt ''/drive/folders/'' (pathname u) pre0 i0" by auto
  from occurrence_leftmost [where P = "idPatternAt ''/drive/folders/'' (pathname u)"
      and m = "lit ''/drive/folders/'' (greedy isIdChar 1 (\<lambda>i _. Some i) [])", OF idPatternAt_iff this]
  obtain pre i where p: "idPatternAt ''/drive/folders/'' (pathname u) pre i"
      "\<forall>pre' i'. idPatternAt ''/drive/folders/'' (pathname u) pre' i' \<longrightarrow> length pre \<le> length pre'"
      "search folderIdMatcher (pathname u) = Some i"
    unfolding folderIdMatcher_def by auto
  from folder_branch [where newURL = newURL and url = url, OF u nofile p(3)] p(1,2)
  show "\<exists>pre i. idPatternAt ''/drive/folders/'' (pathname u) pre i
         \<and> (\<forall>pre' i'. idPatternAt ''/drive/folders/'' (pathname u) pre' i' \<longrightarrow> length pre \<le> length pre')
         \<and> parseGoogleDriveUrl newURL url =
             Some \<lparr>pu_id = i, pu_type = Folder,
                   pu_resourceKey = orUndefined (searchParamsGet u ''resourcekey'')\<rparr>"
    by (intro exI [of _ pre] exI [of _ i]) simp
next
  assume u: "newURL url = Some u"
  assume a: "(\<forall>pre i. \<not> idPatternAt ''/file/d/'' (pathname u) pre i)
       \<and> (\<forall>pre i. \<not> idPatternAt ''/drive/folders/'' (pathname u) pre i)
       \<and> includesStr (hostname u) ''docs.google.com''
       \<and> (\<exists>pre w i. docPatternAt (pathname u) pre w i)"
  then have nofile: "search fileIdMatcher (pathname u) = None"
    unfolding fileIdMatcher_def
    using occurrence_none [where P = "idPatternAt ''/file/d/'' (pathname u)"
      and m = "lit ''/file/d/'' (greedy isIdChar 1 (\<lambda>i _. Some i) [])", OF idPatternAt_iff]
    by simp
  from a have nofolder: "search folderIdMatcher (pathname u) = None"
    unfolding folderIdMatcher_def
    using occurrence_none [where P = "idPatternAt ''/drive/folders/'' (pathname u)"
      and m = "lit ''/drive/folders/'' (greedy isIdChar 1 (\<lambda>i _. Some i) [])", OF idPatternAt_iff]
    by simp
  from a have host: "includesStr (hostname u) ''docs.google.com''" by simp
  from a obtain pre0 w0 i0 where "docPatternAt (pathname u) pre0 w0 i0" by auto
  then have "(\<lambda>pre r. docPatternAt (pathname u) pre (fst r) (snd r)) pre0 (w0, i0)" by simp
  moreover have "\<And>pre r. docPatternAt (pathname u) pre (fst r) (snd r) \<longleftrightarrow>
      (\<exists>suf. pathname u = pre @ suf \<and> docIdMatcher suf = Some r)"
    by (simp add: docPatternAt_iff)
  ultimately have "\<exists>pre r. docPatternAt (pathname u) pre (fst r) (snd r)
      \<and> (\<forall>pre' r'. docPatternAt (pathname u) pre' (fst r') (snd r') \<longrightarrow> length pre \<le> length pre')
      \<and> search docIdMatcher (pathname u) = Some r"
    by (intro occurrence_leftmost [where P = "\<lambda>pre r. docPatternAt (pathname u) pre (fst r) (snd r)"
      and m = docIdMatcher and s = "pathname u" and ?pre0.0 = pre0 and ?r0.0 = "(w0, i0)"])
  then obtain pre r where p: "docPatternAt (pathname u) pre (fst r) (snd r)"
      "\<forall>pre' r'. docPatternAt (pathname u) pre' (fst r') (snd r') \<longrightarrow> length pre \<le> length pre'"
      "search docIdMatcher (pathname u) = Some r"
    by blast
  obtain w i where r: "r = (w, i)" by (cases r)
  have words: "w \<in> set [''document'', ''spreadsheets'', ''presentation'', ''drawings'']"
    using p(1) r by (simp add: docPatternAt_def)
  have left: "\<forall>pre' w' i'. docPatternAt (pathname u) pre' w' i' \<longrightarrow> length pre \<le> length pre'"
  proof (intro allI impI)
    fix pre' w' i' assume "docPatternAt (pathname u) pre' w' i'"
    then have "docPatternAt (pathname u) pre' (fst (w', i')) (snd (w', i'))" by simp
    with p(2) show "length pre \<le> length pre'" by blast
  qed
  have "parseGoogleDriveUrl newURL url =
             Some \<lparr>pu_id = i, pu_type = docKind w,
                   pu_resourceKey = orUndefined (searchParamsGet u ''resourcekey'')\<rparr>"
    using doc_branch [where newURL = newURL and url = url, OF u nofile nofolder host, of w i] p(3) r
      typeMap_docKind [OF words]
    by simp
  with p(1) r left
  show "\<exists>pre w i. docPatternAt (pathname u) pre w i
         \<and> (\<forall>pre' w' i'. docPatternAt (pathname u) pre' w' i' \<longrightarrow> length pre \<le> length pre')
         \<and> parseGoogleDriveUrl newURL url =
             Some \<lparr>pu_id = i, pu_type = docKind w,
                   pu_resourceKey = orUndefined (searchParamsGet u ''resourcekey'')\<rparr>"
    by (intro exI [of _ pre] exI [of _ w] exI [of _ i]) simp
next
  assume "searchParamsGet u ''resourcekey'' = Some k \<and> k \<noteq> []"
  then show "orUndefined (searchParamsGet u ''resourcekey'') = Some k"
    by (simp add: orUndefined_def)
next
  assume "searchParamsGet u ''resourcekey'' = None \<or> searchParamsGet u ''resourcekey'' = Some []"
  then show "orUndefined (searchParamsGet u ''resourcekey'') = None"
    by (auto simp: orUndefined_def)
qed

lemmas parser_eval =
  parseGoogleDriveUrl_def parseUrlObject_def urlObject_def searchParamsGet_def orUndefined_def
  fileIdMatcher_def folderIdMatcher_def docIdMatcher_def fuzzyMatcher_def typeMap_def
  lit_def isIdChar_def isDigit_def isUpper_def isLower_def Let_def

text \<open>
  The claim as stated fails on two inputs. A path that matches the folder pattern with id
  \<^verbatim>\<open>F1\<close> and, further right, the file pattern is resolved as the file; and a
  \<^verbatim>\<open>resourcekey\<close> parameter that is present with an empty value gives no access key.
\<close>

theorem C5_counterexample:
  "idPatternAt ''/drive/folders/'' ''/drive/folders/F1/file/d/X2'' [] ''F1''
   \<and> parseGoogleDriveUrl
        (urlObject \<lparr>hostname = ''drive.google.com'', pathname = ''/drive/folders/F1/file/d/X2'',
                    searchParams = []\<rparr>)
        ''https://drive.google.com/drive/folders/F1/file/d/X2'' =
       Some \<lparr>pu_id = ''X2'', pu_type = File, pu_resourceKey = None\<rparr>
   \<and> searchParamsGet \<lparr>hostname = ''drive.google.com'', pathname = ''/file/d/ABC123/view'',
                       searchParams = [(''resourcekey'', [])]\<rparr> ''resourcekey'' = Some []
   \<and> parseGoogleDriveUrl
        (urlObject \<lparr>hostname = ''drive.google.com'', pathname = ''/file/d/ABC123/view'',
                    searchParams = [(''resourcekey'', [])]\<rparr>)
        ''https://drive.google.com/file/d/ABC123/view?resourcekey='' =
       Some \<lparr>pu_id = ''ABC123'', pu_type = File, pu_resourceKey = None\<rparr>"
proof (intro conjI)
  show "idPatternAt ''/drive/folders/'' ''/drive/folders/F1/file/d/X2'' [] ''F1''"
    unfolding idPatternAt_def
    by (intro conjI exI [of _ "''/file/d/X2''"]) (simp_all add: isIdChar_def isDigit_def isUpper_def isLower_def)
qed (simp_all add: parser_eval)

theorem C5_parseGoogleDriveUrl_witness:
  "idPatternAt ''/file/d/'' ''/file/d/ABC123/view'' [] ''ABC123''
   \<and> parseGoogleDriveUrl
        (urlObject \<lparr>hostname = ''drive.google.com'', pathname = ''/file/d/ABC123/view'',
                    searchParams = [(''usp'', ''sharing''), (''resourcekey'', ''0-abc'')]\<rparr>)
        ''https://drive.google.com/file/d/ABC123/view?usp=sharing&resourcekey=0-abc'' =
       Some \<lparr>pu_id = ''ABC123'', pu_type = File, pu_resourceKey = Some ''0-abc''\<rparr>
   \<and> idPatternAt ''/drive/folders/'' ''/drive/folders/XYZ987'' [] ''XYZ987''
   \<and> search fileIdMatcher ''/drive/folders/XYZ987'' = None
   \<and> parseGoogleDriveUrl
        (urlObject \<lparr>hostname = ''drive.google.com'', pathname = ''/drive/folders/XYZ987'',
                    searchParams = []\<rparr>)
        ''https://drive.google.com/drive/folders/XYZ987'' =
       Some \<lparr>pu_id = ''XYZ987'', pu_type = Folder, pu_resourceKey = None\<rparr>
   \<and> docPatternAt ''/spreadsheets/d/SHEET1/edit'' [] ''spreadsheets'' ''SHEET1''
   \<and> includesStr ''docs.google.com'' ''docs.google.com''
   \<and> parseGoogleDriveUrl
        (urlObject \<lparr>hostname = ''docs.google.com'', pathname = ''/spreadsheets/d/SHEET1/edit'',
                    searchParams = []\<rparr>)
        ''https://docs.google.com/spreadsheets/d/SHEET1/edit'' =
       Some \<lparr>pu_id = ''SHEET1'', pu_type = Spreadsheet, pu_resourceKey = None\<rparr>"
proof -
  let ?u1 = "\<lparr>hostname = ''drive.google.com'', pathname = ''/file/d/ABC123/view'',
              searchParams = [(''usp'', ''sharing''), (''resourcekey'', ''0-abc'')]\<rparr>"
  let ?u2 = "\<lparr>hostname = ''drive.google.com'', pathname = ''/drive/folders/XYZ987'',
              searchParams = []\<rparr>"
  let ?u3 = "\<lparr>hostname = ''docs.google.com'', pathname = ''/spreadsheets/d/SHEET1/edit'',
              searchParams = []\<rparr>"
  have cls: "\<forall>c \<in> set ''ABC123''. isIdChar c" "\<forall>c \<in> set ''XYZ987''. isIdChar c"
      "\<forall>c \<in> set ''SHEET1''. isIdChar c" "\<not> isIdChar CHR ''/''"
    by (simp_all add: isIdChar_def isDigit_def isUpper_def isLower_def)
  have p1: "idPatternAt ''/file/d/'' ''/file/d/ABC123/view'' [] ''ABC123''"
    unfolding idPatternAt_def using cls by (intro conjI exI [of _ "''/view''"]) simp_all
  have p2: "idPatternAt ''/drive/folders/'' ''/drive/folders/XYZ987'' [] ''XYZ987''"
    unfolding idPatternAt_def using cls by (intro conjI exI [of _ "[]"]) simp_all
  have p3: "docPatternAt ''/spreadsheets/d/SHEET1/edit'' [] ''spreadsheets'' ''SHEET1''"
    unfolding docPatternAt_def idPatternAt_def using cls
    by (intro conjI exI [of _ "''/edit''"]) simp_all
  have n2: "search fileIdMatcher ''/drive/folders/XYZ987'' = None"
    by (simp add: parser_eval)
  have h3: "includesStr ''docs.google.com'' ''docs.google.com''" by simp
  have r1: "parseGoogleDriveUrl (urlObject ?u1)
        ''https://drive.google.com/file/d/ABC123/view?usp=sharing&resourcekey=0-abc'' =
       Some \<lparr>pu_id = ''ABC123'', pu_type = File, pu_resourceKey = Some ''0-abc''\<rparr>"
    using C5_parseGoogleDriveUrl_priority [of "urlObject ?u1"
        "''https://drive.google.com/file/d/ABC123/view?usp=sharing&resourcekey=0-abc''" ?u1 "''0-abc''"]
      p1
    by (simp add: parser_eval)
  have r2: "parseGoogleDriveUrl (urlObject ?u2) ''https://drive.google.com/drive/folders/XYZ987'' =
       Some \<lparr>pu_id = ''XYZ987'', pu_type = Folder, pu_resourceKey = None\<rparr>"
    using C5_parseGoogleDriveUrl_priority [of "urlObject ?u2"
        "''https://drive.google.com/drive/folders/XYZ987''" ?u2 "[]"] p2 n2
    by (simp add: parser_eval)
  have r3: "parseGoogleDriveUrl (urlObject ?u3) ''https://docs.google.com/spreadsheets/d/SHEET1/edit'' =
       Some \<lparr>pu_id = ''SHEET1'', pu_type = Spreadsheet, pu_resourceKey = None\<rparr>"
    using C5_parseGoogleDriveUrl_priority [of "urlObject ?u3"
        "''https://docs.google.com/spreadsheets/d/SHEET1/edit''" ?u3 "[]"] p3 h3
    by (simp add: parser_eval)
  from p1 r1 p2 n2 r2 p3 h3 r3 show ?thesis by simp
qed

section \<open>Properties of the text fetch\<close>

lemma sleeps_emit: "sleeps (snd (snd (emit es r))) = sleeps es @ sleeps (snd (snd r))"
  by (induction es rule: sleeps.induct) (simp_all add: emit_def)

text \<open>After a timeout the effects are those of the retry that the handler starts.\<close>

lemma fetchText_TimesOut_effects:
  "snd (snd (fetchText resolveUrl maxRetries (TimesOut # net) url jar retryCount)) =
     (if retryCount < maxRetries
      then snd (snd (emit [Request url jar, Sleep (fetchTextErrorDelay retryCount)]
                       (fetchText resolveUrl maxRetries net url jar (retryCount + 1))))
      else [Request url jar])"
  by (simp add: emit_def split: prod.splits)

lemma fetchText_retries_bounded:
  "retryCount \<le> maxRetries \<Longrightarrow>
     length (sleeps (snd (snd (fetchText resolveUrl maxRetries net url jar retryCount))))
       + retryCount \<le> maxRetries"
proof (induction net arbitrary: url jar retryCount)
  case Nil
  then show ?case by simp
next
  case (Cons ev net)
  show ?case
  proof (cases ev)
    case (Responds res)
    show ?thesis
      using Cons.prems Cons.IH [of retryCount] Cons.IH [of "retryCount + 1"]
      by (auto simp: Responds sleeps_emit split: sum.splits)
  next
    case (SocketError err)
    show ?thesis
      using Cons.prems Cons.IH [of "retryCount + 1"]
      by (auto simp: SocketError sleeps_emit)
  next
    case TimesOut
    show ?thesis
      unfolding TimesOut fetchText_TimesOut_effects
      using Cons.prems Cons.IH [of "retryCount + 1"]
      by (auto simp: sleeps_emit)
  qed
qed

lemma requestJars_emit:
  "requestJars (snd (snd (emit es r))) = requestJars es @ requestJars (snd (snd r))"
  by (induction es rule: requestJars.induct) (simp_all add: emit_def)

lemma fetchText_requestJars:
  "set (requestJars (snd (snd (fetchText resolveUrl maxRetries net url jar retryCount)))) \<subseteq> {jar}"
proof (induction net arbitrary: url jar retryCount)
  case Nil
  show ?case by simp
next
  case (Cons ev net)
  show ?case
  proof (cases ev)
    case (Responds res)
    show ?thesis
      using Cons.IH [of _ jar retryCount] Cons.IH [of _ jar "retryCount + 1"]
      by (auto simp: Responds requestJars_emit split: sum.splits)
  next
    case (SocketError err)
    show ?thesis
      using Cons.IH [of _ jar "retryCount + 1"]
      by (auto simp: SocketError requestJars_emit)
  next
    case TimesOut
    show ?thesis
      unfolding TimesOut fetchText_TimesOut_effects
      using Cons.IH [of _ jar "retryCount + 1"]
      by (auto simp: requestJars_emit)
  qed
qed

lemmas fetch_eval =
  emit_def fetchTextRateLimitDelay_def fetchTextErrorDelay_def resolveAbsolute_def
  updateCookiesFromHeaders_def updateCookie_def cookie_eval

text \<open>
  Claim C2 asks that the cookies of every response, redirects, 429 and error responses
  included, are in the jar before the redirect is followed, the retry is made or the
  error is returned. The code merges cookies only on the path that reads the body: every
  request of a run sends the jar that \<^verbatim>\<open>fetchText\<close> was called with. A redirect that sets
  \<^verbatim>\<open>NID\<close> is followed without it and the jar is still empty when the text is returned; the
  same holds for a 429 response before its retry and for a 403 response, while the
  cookies of the final 200 response are merged.
\<close>

theorem C2_fetchText_drops_cookies:
  "set (requestJars (snd (snd (fetchText resolveUrl maxRetries net url jar retryCount)))) \<subseteq> {jar}
   \<and> fetchText resolveAbsolute 5
         [Responds \<lparr>statusCode = 302, location = Some ''https://drive.google.com/next'',
                     setCookie = Some [''NID=abc; Path=/''], decoded = Inr []\<rparr>,
          Responds \<lparr>statusCode = 200, location = None, setCookie = None,
                     decoded = Inr ''<html></html>''\<rparr>]
         ''https://drive.google.com/embeddedfolderview?id=F1#list'' Map.empty 0 =
       (Resolved ''<html></html>'', Map.empty,
        [Request ''https://drive.google.com/embeddedfolderview?id=F1#list'' Map.empty,
         Request ''https://drive.google.com/next'' Map.empty])
   \<and> fetchText resolveAbsolute 5
         [Responds \<lparr>statusCode = 429, location = None,
                     setCookie = Some [''NID=abc; Path=/''], decoded = Inr []\<rparr>,
          Responds \<lparr>statusCode = 200, location = None, setCookie = None,
                     decoded = Inr ''<html></html>''\<rparr>]
         ''https://drive.google.com/embeddedfolderview?id=F1#list'' Map.empty 0 =
       (Resolved ''<html></html>'', Map.empty,
        [Request ''https://drive.google.com/embeddedfolderview?id=F1#list'' Map.empty,
         Sleep 2000,
         Request ''https://drive.google.com/embeddedfolderview?id=F1#list'' Map.empty])
   \<and> fetchText resolveAbsolute 5
         [Responds \<lparr>statusCode = 403, location = None,
                     setCookie = Some [''NID=abc; Path=/''], decoded = Inr []\<rparr>]
         ''https://drive.google.com/x'' Map.empty 0 =
       (Rejected (Error ''HTTP 403 when fetching https://drive.google.com/x''), Map.empty,
        [Request ''https://drive.google.com/x'' Map.empty])
   \<and> fetchText resolveAbsolute 5
         [Responds \<lparr>statusCode = 200, location = None,
                     setCookie = Some [''NID=abc; Path=/''], decoded = Inr ''ok''\<rparr>]
         ''https://drive.google.com/x'' Map.empty 0 =
       (Resolved ''ok'', [''NID'' \<mapsto> ''abc''],
        [Request ''https://drive.google.com/x'' Map.empty])"
proof -
  have d: "decimal 403 = ''403''" by code_simp
  show ?thesis
    by (intro conjI fetchText_requestJars) (simp_all add: fetch_eval d)
qed

text \<open>
  Claim C3, as the code has it. The retries after a 429 response and after a connection
  error count on one counter, \<^verbatim>\<open>retryCount\<close>: either kind of failure is retried only
  while the counter is below \<^verbatim>\<open>maxRetries\<close>, and the retry runs with the counter
  increased by one, so that a run makes at most \<open>maxRetries - retryCount\<close> retries of both
  kinds together. The delay before the retry is \<open>min (2000 * 2^retryCount) 60000\<close> ms after
  a 429 response and \<open>min (2000 * 2^retryCount) 30000\<close> ms after a connection error. With
  the counter at \<^verbatim>\<open>maxRetries\<close> a 429 response rejects with \<^verbatim>\<open>RateLimitError\<close> and a
  connection error rejects with that error.
\<close>

theorem C3_fetchText_shared_retry_counter:
  "(retryCount \<le> maxRetries \<longrightarrow>
      length (sleeps (snd (snd (fetchText resolveUrl maxRetries net url jar retryCount))))
        + retryCount \<le> maxRetries)
   \<and> (retryCount < maxRetries \<longrightarrow>
        fetchText resolveUrl maxRetries (SocketError err # net) url jar retryCount =
          emit [Request url jar, Sleep (min (2000 * 2 ^ retryCount) 30000)]
            (fetchText resolveUrl maxRetries net url jar (retryCount + 1)))
   \<and> (retryCount < maxRetries \<and> statusCode res = 429 \<longrightarrow>
        fetchText resolveUrl maxRetries (Responds res # net) url jar retryCount =
          emit [Request url jar, Sleep (min (2000 * 2 ^ retryCount) 60000)]
            (fetchText resolveUrl maxRetries net url jar (retryCount + 1)))
   \<and> (maxRetries \<le> retryCount \<longrightarrow>
        fetchText resolveUrl maxRetries (SocketError err # net) url jar retryCount =
          (Rejected err, jar, [Request url jar]))
   \<and> (maxRetries \<le> retryCount \<and> statusCode res = 429 \<longrightarrow>
        fetchText resolveUrl maxRetries (Responds res # net) url jar retryCount =
          (Rejected (RateLimitError (''Rate limited after '' @ decimal maxRetries @ '' retries'')),
           jar, [Request url jar]))"
  using fetchText_retries_bounded [of retryCount maxRetries resolveUrl net url jar]
  by (simp add: fetchTextErrorDelay_def fetchTextRateLimitDelay_def)

text \<open>
  The claim as stated fails: with \<^verbatim>\<open>maxRetries = 1\<close>, after one retry for a 429 response
  a connection error is not retried at all, although no connection error was retried
  before.
\<close>

theorem C3_counterexample:
  "fetchText resolveAbsolute 1
     [Responds \<lparr>statusCode = 429, location = None, setCookie = None, decoded = Inr []\<rparr>,
      SocketError (Error ''read ECONNRESET''),
      Responds \<lparr>statusCode = 200, location = None, setCookie = None, decoded = Inr ''ok''\<rparr>]
     ''https://drive.google.com/x'' Map.empty 0 =
   (Rejected (Error ''read ECONNRESET''), Map.empty,
    [Request ''https://drive.google.com/x'' Map.empty, Sleep 2000,
     Request ''https://drive.google.com/x'' Map.empty])"
  by (simp add: fetch_eval)

theorem C3_fetchText_witness:
  "(0::nat) \<le> 2
   \<and> fetchText resolveAbsolute 2
     [Responds \<lparr>statusCode = 429, location = None, setCookie = None, decoded = Inr []\<rparr>,
      SocketError (Error ''read ECONNRESET''),
      SocketError (Error ''read ECONNRESET''),
      Responds \<lparr>statusCode = 200, location = None, setCookie = None, decoded = Inr ''ok''\<rparr>]
     ''https://drive.google.com/x'' Map.empty 0 =
   (Rejected (Error ''read ECONNRESET''), Map.empty,
    [Request ''https://drive.google.com/x'' Map.empty, Sleep 2000,
     Request ''https://drive.google.com/x'' Map.empty, Sleep 4000,
     Request ''https://drive.google.com/x'' Map.empty])
   \<and> fetchText resolveAbsolute 2
     [SocketError (Error ''read ECONNRESET''),
      Responds \<lparr>statusCode = 429, location = None, setCookie = None, decoded = Inr []\<rparr>,
      Responds \<lparr>statusCode = 429, location = None, setCookie = None, decoded = Inr []\<rparr>,
      Responds \<lparr>statusCode = 200, location = None, setCookie = None, decoded = Inr ''ok''\<rparr>]
     ''https://drive.google.com/x'' Map.empty 0 =
   (Rejected (RateLimitError ''Rate limited after 2 retries''), Map.empty,
    [Request ''https://drive.google.com/x'' Map.empty, Sleep 2000,
     Request ''https://drive.google.com/x'' Map.empty, Sleep 4000,
     Request ''https://drive.google.com/x'' Map.empty])"
proof -
  let ?r429 = "\<lparr>statusCode = 429, location = None, setCookie = None, decoded = Inr []\<rparr>"
  let ?r200 = "\<lparr>statusCode = 200, location = None, setCookie = None, decoded = Inr ''ok''\<rparr>"
  let ?err = "Error ''read ECONNRESET''"
  have d: "decimal 2 = ''2''" by code_simp
  show ?thesis
    using C3_fetchText_shared_retry_counter [of 0 2 resolveAbsolute
            "[SocketError ?err, SocketError ?err, Responds ?r200]"
            "''https://drive.google.com/x''" Map.empty ?err ?r429]
          C3_fetchText_shared_retry_counter [of 1 2 resolveAbsolute
            "[Responds ?r429, Responds ?r200]"
            "''https://drive.google.com/x''" Map.empty ?err ?r429]
          C3_fetchText_shared_retry_counter [of 2 2 resolveAbsolute
            "[Responds ?r200]"
            "''https://drive.google.com/x''" Map.empty ?err ?r429]
    by (simp add: fetch_eval d)
qed

section \<open>Properties of the download orchestrator\<close>






lemma permission_message_not_rate_limited:
  "\<not> rateLimitedMessage ''Permission denied. The file may not be publicly accessible.''"
  by (simp add: rateLimitedMessage_def)

lemma not_found_message_not_rate_limited:
  "\<not> rateLimitedMessage ''File not found on Google Drive.''"
  by (simp add: rateLimitedMessage_def)

lemmas download_eval =
  downloadFile_def resolveTarget_def cachedPath_def jobFor_def buildDownloadUrl_def
  attemptStep_def attemptUrl_def tryBlock_def catchBlock_def rateLimitedResult_def
  rateLimitedMessage_def truthy_def maxAttempts_def loadMetadata_def saveMetadata_def
  calculateFileHash_def verifyFileHash_def isFileValid_def finalPath_def
  downloadRateLimitDelay_def updateCookiesFromHeaders_def
  exampleEnv_def exampleJoin_def serveFile_def refuseOnce_def exampleOptions_def
  exampleDest_def emptyWorld_def exampleUrl_def quoted_def Let_def

text \<open>
  Claim C1 asks that a response classified as permission denied (status 403) or not found
  (status 404) ends the download at once, on every attempt. In the code the
  \<^verbatim>\<open>PermissionError\<close> and the \<^verbatim>\<open>FileNotFoundError\<close> are thrown inside the \<^verbatim>\<open>try\<close> block whose
  \<^verbatim>\<open>catch\<close> block retries: on every attempt but the last the error is caught, the loop
  waits and goes on to the next attempt. When the first response is a 403 (or a 404) and
  the second one carries the file, \<^verbatim>\<open>downloadFile\<close> returns the path of the file.
\<close>

theorem C1_classification_errors_are_retried:
  "(attempt < maxAttempts - 1
      \<and> rr_result (env_request env attempt (attemptUrl job confirmToken) jar) = Inr result
      \<and> \<not> success result \<and> \<not> rateLimitedResult result
      \<and> (da_statusCode result = Some 403 \<or> da_statusCode result = Some 404) \<longrightarrow>
      fst (attemptStep env job attempt confirmToken jar world) =
        Continue (Some (min (2000 * (3 / 2) ^ attempt) 20000)) confirmToken)
   \<and> downloadFile (exampleEnv (refuseOnce 403)) ''FILE1'' exampleDest (exampleOptions False)
        emptyWorld =
       (Inr ''/out/report.pdf'',
        emptyWorld\<lparr>files := [''/out/report.pdf'' \<mapsto> \<lparr>fi_size = 3, fi_sha256 = ''aa11''\<rparr>]\<rparr>,
        [Attempt 0 exampleUrl Map.empty, Wait 2000, Attempt 1 exampleUrl Map.empty])
   \<and> downloadFile (exampleEnv (refuseOnce 404)) ''FILE1'' exampleDest (exampleOptions False)
        emptyWorld =
       (Inr ''/out/report.pdf'',
        emptyWorld\<lparr>files := [''/out/report.pdf'' \<mapsto> \<lparr>fi_size = 3, fi_sha256 = ''aa11''\<rparr>]\<rparr>,
        [Attempt 0 exampleUrl Map.empty, Wait 2000, Attempt 1 exampleUrl Map.empty])"
proof (intro conjI impI)
  assume a: "attempt < maxAttempts - 1
      \<and> rr_result (env_request env attempt (attemptUrl job confirmToken) jar) = Inr result
      \<and> \<not> success result \<and> \<not> rateLimitedResult result
      \<and> (da_statusCode result = Some 403 \<or> da_statusCode result = Some 404)"
  let ?run = "env_request env attempt (attemptUrl job confirmToken) jar"
  let ?jar1 = "foldl updateCookiesFromHeaders jar (rr_cookies ?run)"
  let ?world1 = "case rr_written ?run of None \<Rightarrow> world
                 | Some (path, f) \<Rightarrow> world\<lparr>files := (files world)(path \<mapsto> f)\<rparr>"
  have "fst (tryBlock env job attempt confirmToken ?jar1 ?world1 result) =
          Throw (PermissionError ''Permission denied. The file may not be publicly accessible.'')
        \<or> fst (tryBlock env job attempt confirmToken ?jar1 ?world1 result) =
          Throw (FileNotFoundError ''File not found on Google Drive.'')"
    using a by (auto simp: tryBlock_def Let_def)
  moreover have "catchBlock attempt confirmToken
        (PermissionError ''Permission denied. The file may not be publicly accessible.'') =
      Continue (Some (min (2000 * (3 / 2) ^ attempt) 20000)) confirmToken"
    using a permission_message_not_rate_limited by (simp add: catchBlock_def)
  moreover have "catchBlock attempt confirmToken
        (FileNotFoundError ''File not found on Google Drive.'') =
      Continue (Some (min (2000 * (3 / 2) ^ attempt) 20000)) confirmToken"
    using a not_found_message_not_rate_limited by (simp add: catchBlock_def)
  ultimately show "fst (attemptStep env job attempt confirmToken jar world) =
        Continue (Some (min (2000 * (3 / 2) ^ attempt) 20000)) confirmToken"
    using a
    by (cases "tryBlock env job attempt confirmToken ?jar1 ?world1 result")
       (auto simp: attemptStep_def Let_def)
next
  show "downloadFile (exampleEnv (refuseOnce 403)) ''FILE1'' exampleDest (exampleOptions False)
        emptyWorld =
       (Inr ''/out/report.pdf'',
        emptyWorld\<lparr>files := [''/out/report.pdf'' \<mapsto> \<lparr>fi_size = 3, fi_sha256 = ''aa11''\<rparr>]\<rparr>,
        [Attempt 0 exampleUrl Map.empty, Wait 2000, Attempt 1 exampleUrl Map.empty])"
    by (simp add: download_eval downloadLoop.simps)
next
  show "downloadFile (exampleEnv (refuseOnce 404)) ''FILE1'' exampleDest (exampleOptions False)
        emptyWorld =
       (Inr ''/out/report.pdf'',
        emptyWorld\<lparr>files := [''/out/report.pdf'' \<mapsto> \<lparr>fi_size = 3, fi_sha256 = ''aa11''\<rparr>]\<rparr>,
        [Attempt 0 exampleUrl Map.empty, Wait 2000, Attempt 1 exampleUrl Map.empty])"
    by (simp add: download_eval downloadLoop.simps)
qed

theorem C1_classification_witness:
  "(0::nat) < maxAttempts - 1
   \<and> rr_result (env_request (exampleEnv (refuseOnce 403)) 0 (attemptUrl exampleJob None) Map.empty) =
       Inr \<lparr>success = False, filePath = None, body = Some [], da_statusCode = Some 403\<rparr>
   \<and> \<not> rateLimitedResult \<lparr>success = False, filePath = None, body = Some [], da_statusCode = Some 403\<rparr>
   \<and> fst (attemptStep (exampleEnv (refuseOnce 403)) exampleJob 0 None Map.empty emptyWorld) =
       Continue (Some 2000) None"
  using C1_classification_errors_are_retried [of 0 "exampleEnv (refuseOnce 403)" exampleJob None
          Map.empty "\<lparr>success = False, filePath = None, body = Some [], da_statusCode = Some 403\<rparr>"
          emptyWorld]
  by (simp add: download_eval exampleJob_def)




section \<open>The back-off delays in the text fetch and in the orchestrator\<close>

lemma tryBlock_rate_limited:
  "\<not> (success result \<and> truthy (filePath result)) \<Longrightarrow> rateLimitedResult result \<Longrightarrow>
     tryBlock env job n confirmToken jar world result =
       (Continue (Some (downloadRateLimitDelay n)) confirmToken, world)"
  by (auto simp: tryBlock_def Let_def)

lemma catchBlock_rate_limited:
  "rateLimitedMessage (errorMessage err) \<Longrightarrow>
     catchBlock n confirmToken err = Continue (Some (downloadRateLimitDelay n)) confirmToken"
  by (simp add: catchBlock_def)

lemma downloadLoop_waits:
  assumes "n < maxAttempts"
    and "attemptStep env job n confirmToken jar world =
           (Continue (Some ms) token, jarAfter, worldAfter)"
  shows "snd (snd (downloadLoop env job n confirmToken jar world)) =
           Attempt n (attemptUrl job confirmToken) jar # Wait ms
             # snd (snd (downloadLoop env job (n + 1) token jarAfter worldAfter))"
  using assms
  by (subst downloadLoop.simps) (simp split: prod.splits)

text \<open>
  Claim C8. At a 429 response with the counter \<open>n\<close> below \<^verbatim>\<open>maxRetries\<close>, \<^verbatim>\<open>fetchText\<close> sets
  a timer of \<open>fetchTextRateLimitDelay n\<close> ms and then retries with the counter \<open>n + 1\<close>. At
  attempt \<open>n\<close> of \<^verbatim>\<open>downloadFile\<close>, a response that is rate limited, or an error whose
  message is, sends the loop to the next attempt after \<open>downloadRateLimitDelay n\<close> ms, and
  the loop waits that long between the request of attempt \<open>n\<close> and that of attempt
  \<open>n + 1\<close>. The first delay is \<open>min (2000 * 2^n) 60000\<close> ms and the second is
  \<open>min (5000 * 2^n) 120000\<close> ms; each is non-decreasing in \<open>n\<close> and never exceeds its cap.
\<close>

theorem C8_backoff_monotone_capped:
  "(n \<le> m \<longrightarrow> fetchTextRateLimitDelay n \<le> fetchTextRateLimitDelay m)
   \<and> fetchTextRateLimitDelay n \<le> 60000
   \<and> fetchTextRateLimitDelay n = min (2000 * 2 ^ n) 60000
   \<and> (statusCode res = 429 \<and> n < maxRetries \<longrightarrow>
        fetchText resolveUrl maxRetries (Responds res # net) url jar n =
          emit [Request url jar, Sleep (fetchTextRateLimitDelay n)]
            (fetchText resolveUrl maxRetries net url jar (n + 1)))
   \<and> (n \<le> m \<longrightarrow> downloadRateLimitDelay n \<le> downloadRateLimitDelay m)
   \<and> downloadRateLimitDelay n \<le> 120000
   \<and> downloadRateLimitDelay n = min (5000 * 2 ^ n) 120000
   \<and> (\<not> (success result \<and> truthy (filePath result)) \<and> rateLimitedResult result \<longrightarrow>
        tryBlock env job n confirmToken cookies world result =
          (Continue (Some (downloadRateLimitDelay n)) confirmToken, world))
   \<and> (rateLimitedMessage (errorMessage err) \<longrightarrow>
        catchBlock n confirmToken err =
          Continue (Some (downloadRateLimitDelay n)) confirmToken)
   \<and> (rr_result (env_request env n (attemptUrl job confirmToken) cookies) = Inr result
        \<and> \<not> (success result \<and> truthy (filePath result)) \<and> rateLimitedResult result \<longrightarrow>
        fst (attemptStep env job n confirmToken cookies world) =
          Continue (Some (downloadRateLimitDelay n)) confirmToken)
   \<and> (rr_result (env_request env n (attemptUrl job confirmToken) cookies) = Inl err
        \<and> rateLimitedMessage (errorMessage err) \<longrightarrow>
        fst (attemptStep env job n confirmToken cookies world) =
          Continue (Some (downloadRateLimitDelay n)) confirmToken)
   \<and> (n < maxAttempts
        \<and> attemptStep env job n confirmToken cookies world =
            (Continue (Some ms) token, cookiesAfter, worldAfter) \<longrightarrow>
        snd (snd (downloadLoop env job n confirmToken cookies world)) =
          Attempt n (attemptUrl job confirmToken) cookies # Wait ms
            # snd (snd (downloadLoop env job (n + 1) token cookiesAfter worldAfter)))"
proof (intro conjI impI)
  show "fetchTextRateLimitDelay n \<le> 60000" "fetchTextRateLimitDelay n = min (2000 * 2 ^ n) 60000"
    by (simp_all add: fetchTextRateLimitDelay_def)
  show "downloadRateLimitDelay n \<le> 120000" "downloadRateLimitDelay n = min (5000 * 2 ^ n) 120000"
    by (simp_all add: downloadRateLimitDelay_def)
next
  assume "n \<le> m"
  then show "fetchTextRateLimitDelay n \<le> fetchTextRateLimitDelay m"
    by (rule fetchTextRateLimitDelay_mono)
next
  assume "n \<le> m"
  then show "downloadRateLimitDelay n \<le> downloadRateLimitDelay m"
    by (rule downloadRateLimitDelay_mono)
next
  assume "statusCode res = 429 \<and> n < maxRetries"
  then show "fetchText resolveUrl maxRetries (Responds res # net) url jar n =
          emit [Request url jar, Sleep (fetchTextRateLimitDelay n)]
            (fetchText resolveUrl maxRetries net url jar (n + 1))"
    by simp
next
  assume "\<not> (success result \<and> truthy (filePath result)) \<and> rateLimitedResult result"
  then show "tryBlock env job n confirmToken cookies world result =
          (Continue (Some (downloadRateLimitDelay n)) confirmToken, world)"
    by (intro tryBlock_rate_limited) simp_all
next
  assume "rateLimitedMessage (errorMessage err)"
  then show "catchBlock n confirmToken err =
          Continue (Some (downloadRateLimitDelay n)) confirmToken"
    by (rule catchBlock_rate_limited)
next
  assume a: "rr_result (env_request env n (attemptUrl job confirmToken) cookies) = Inr result
        \<and> \<not> (success result \<and> truthy (filePath result)) \<and> rateLimitedResult result"
  then show "fst (attemptStep env job n confirmToken cookies world) =
          Continue (Some (downloadRateLimitDelay n)) confirmToken"
    by (simp add: attemptStep_def Let_def tryBlock_rate_limited)
next
  assume a: "rr_result (env_request env n (attemptUrl job confirmToken) cookies) = Inl err
        \<and> rateLimitedMessage (errorMessage err)"
  then show "fst (attemptStep env job n confirmToken cookies world) =
          Continue (Some (downloadRateLimitDelay n)) confirmToken"
    by (simp add: attemptStep_def Let_def catchBlock_rate_limited)
next
  assume "n < maxAttempts
        \<and> attemptStep env job n confirmToken cookies world =
            (Continue (Some ms) token, cookiesAfter, worldAfter)"
  then show "snd (snd (downloadLoop env job n confirmToken cookies world)) =
          Attempt n (attemptUrl job confirmToken) cookies # Wait ms
            # snd (snd (downloadLoop env job (n + 1) token cookiesAfter worldAfter))"
    by (intro downloadLoop_waits) simp_all
qed

theorem C8_backoff_witness:
  "(0::nat) \<le> 5
   \<and> fetchTextRateLimitDelay 0 = 2000 \<and> fetchTextRateLimitDelay 5 = 60000
   \<and> fetchTextRateLimitDelay 0 \<le> fetchTextRateLimitDelay 5
   \<and> downloadRateLimitDelay 0 = 5000 \<and> downloadRateLimitDelay 5 = 120000
   \<and> downloadRateLimitDelay 0 \<le> downloadRateLimitDelay 5
   \<and> fetchText resolveAbsolute 5
         [Responds \<lparr>statusCode = 429, location = None, setCookie = None, decoded = Inr []\<rparr>,
          Responds \<lparr>statusCode = 429, location = None, setCookie = None, decoded = Inr []\<rparr>,
          Responds \<lparr>statusCode = 200, location = None, setCookie = None,
                     decoded = Inr ''ok''\<rparr>]
         ''https://drive.google.com/x'' Map.empty 0 =
       (Resolved ''ok'', Map.empty,
        [Request ''https://drive.google.com/x'' Map.empty, Sleep 2000,
         Request ''https://drive.google.com/x'' Map.empty, Sleep 4000,
         Request ''https://drive.google.com/x'' Map.empty])
   \<and> rr_result (env_request (exampleEnv rateLimitTwice) 0 (attemptUrl exampleJob None) Map.empty) =
       Inr \<lparr>success = False, filePath = None, body = Some ''Rate limited (429)'',
             da_statusCode = Some 429\<rparr>
   \<and> rateLimitedResult \<lparr>success = False, filePath = None, body = Some ''Rate limited (429)'',
                          da_statusCode = Some 429\<rparr>
   \<and> rr_result (env_request (exampleEnv rateLimitTwice) 1 (attemptUrl exampleJob None) Map.empty) =
       Inl (Error ''EDQUOT: disk quota exceeded, write'')
   \<and> rateLimitedMessage (errorMessage (Error ''EDQUOT: disk quota exceeded, write''))
   \<and> attemptStep (exampleEnv rateLimitTwice) exampleJob 0 None Map.empty emptyWorld =
       (Continue (Some 5000) None, Map.empty, emptyWorld)
   \<and> attemptStep (exampleEnv rateLimitTwice) exampleJob 1 None Map.empty emptyWorld =
       (Continue (Some 10000) None, Map.empty, emptyWorld)
   \<and> snd (snd (downloadLoop (exampleEnv rateLimitTwice) exampleJob 0 None Map.empty emptyWorld)) =
       [Attempt 0 exampleUrl Map.empty, Wait 5000,
        Attempt 1 exampleUrl Map.empty, Wait 10000,
        Attempt 2 exampleUrl Map.empty]
   \<and> downloadFile (exampleEnv rateLimitTwice) ''FILE1'' exampleDest (exampleOptions False)
         emptyWorld =
       (Inr ''/out/report.pdf'',
        emptyWorld\<lparr>files := [''/out/report.pdf'' \<mapsto> \<lparr>fi_size = 3, fi_sha256 = ''aa11''\<rparr>]\<rparr>,
        [Attempt 0 exampleUrl Map.empty, Wait 5000,
         Attempt 1 exampleUrl Map.empty, Wait 10000,
         Attempt 2 exampleUrl Map.empty])"
proof -
  let ?r429 = "\<lparr>statusCode = 429, location = None, setCookie = None, decoded = Inr []\<rparr>"
  let ?r200 = "\<lparr>statusCode = 200, location = None, setCookie = None, decoded = Inr ''ok''\<rparr>"
  let ?result = "\<lparr>success = False, filePath = None, body = Some ''Rate limited (429)'',
                  da_statusCode = Some 429\<rparr>"
  let ?err = "Error ''EDQUOT: disk quota exceeded, write''"
  have s0: "attemptStep (exampleEnv rateLimitTwice) exampleJob 0 None Map.empty emptyWorld =
       (Continue (Some 5000) None, Map.empty, emptyWorld)"
    by (simp add: download_eval rateLimitTwice_def exampleJob_def)
  have s1: "attemptStep (exampleEnv rateLimitTwice) exampleJob 1 None Map.empty emptyWorld =
       (Continue (Some 10000) None, Map.empty, emptyWorld)"
    by (simp add: download_eval rateLimitTwice_def exampleJob_def)
  have l2: "downloadLoop (exampleEnv rateLimitTwice) exampleJob 2 None Map.empty emptyWorld =
       (Inr ''/out/report.pdf'',
        emptyWorld\<lparr>files := [''/out/report.pdf'' \<mapsto> \<lparr>fi_size = 3, fi_sha256 = ''aa11''\<rparr>]\<rparr>,
        [Attempt 2 exampleUrl Map.empty])"
    by (simp add: download_eval downloadLoop.simps rateLimitTwice_def exampleJob_def)
  have f: "downloadFile (exampleEnv rateLimitTwice) ''FILE1'' exampleDest (exampleOptions False)
         emptyWorld =
       (Inr ''/out/report.pdf'',
        emptyWorld\<lparr>files := [''/out/report.pdf'' \<mapsto> \<lparr>fi_size = 3, fi_sha256 = ''aa11''\<rparr>]\<rparr>,
        [Attempt 0 exampleUrl Map.empty, Wait 5000,
         Attempt 1 exampleUrl Map.empty, Wait 10000,
         Attempt 2 exampleUrl Map.empty])"
    by (simp add: download_eval downloadLoop.simps rateLimitTwice_def)
  have u: "attemptUrl exampleJob None = exampleUrl"
    by (simp add: attemptUrl_def exampleJob_def truthy_def)
  have r0: "rr_result (env_request (exampleEnv rateLimitTwice) 0 (attemptUrl exampleJob None)
        Map.empty) = Inr ?result"
    by (simp add: exampleEnv_def rateLimitTwice_def)
  have r1: "rr_result (env_request (exampleEnv rateLimitTwice) 1 (attemptUrl exampleJob None)
        Map.empty) = Inl ?err"
    by (simp add: exampleEnv_def rateLimitTwice_def)
  have rl: "rateLimitedResult ?result"
    by (simp add: rateLimitedResult_def)
  have rm: "rateLimitedMessage (errorMessage ?err)"
    by (simp add: rateLimitedMessage_def)
  have d: "fetchTextRateLimitDelay 0 = 2000" "fetchTextRateLimitDelay 5 = 60000"
      "downloadRateLimitDelay 0 = 5000" "downloadRateLimitDelay 5 = 120000"
    by (simp_all add: fetchTextRateLimitDelay_def downloadRateLimitDelay_def)
  have run: "fetchText resolveAbsolute 5 [Responds ?r429, Responds ?r429, Responds ?r200]
         ''https://drive.google.com/x'' Map.empty 0 =
       (Resolved ''ok'', Map.empty,
        [Request ''https://drive.google.com/x'' Map.empty, Sleep 2000,
         Request ''https://drive.google.com/x'' Map.empty, Sleep 4000,
         Request ''https://drive.google.com/x'' Map.empty])"
    by (simp add: fetch_eval)
  note first = C8_backoff_monotone_capped [where n = 0 and m = 5 and res = ?r429
            and maxRetries = 5
            and resolveUrl = resolveAbsolute and net = "[Responds ?r429, Responds ?r200]"
            and url = "''https://drive.google.com/x''" and jar = Map.empty
            and result = ?result and err = ?err and env = "exampleEnv rateLimitTwice"
            and job = exampleJob and confirmToken = None and cookies = Map.empty
            and world = emptyWorld and ms = 5000 and token = None
            and cookiesAfter = Map.empty and worldAfter = emptyWorld]
  note second = C8_backoff_monotone_capped [where n = 1 and m = 5 and res = ?r429
            and maxRetries = 5
            and resolveUrl = resolveAbsolute and net = "[Responds ?r200]"
            and url = "''https://drive.google.com/x''" and jar = Map.empty
            and result = ?result and err = ?err and env = "exampleEnv rateLimitTwice"
            and job = exampleJob and confirmToken = None and cookies = Map.empty
            and world = emptyWorld and ms = 10000 and token = None
            and cookiesAfter = Map.empty and worldAfter = emptyWorld]
  have m1: "fetchTextRateLimitDelay 0 \<le> fetchTextRateLimitDelay 5"
    using first by simp
  have m2: "downloadRateLimitDelay 0 \<le> downloadRateLimitDelay 5"
    using first by simp
  have w0: "snd (snd (downloadLoop (exampleEnv rateLimitTwice) exampleJob 0 None Map.empty
        emptyWorld)) =
      Attempt 0 exampleUrl Map.empty # Wait 5000
        # snd (snd (downloadLoop (exampleEnv rateLimitTwice) exampleJob 1 None Map.empty
                      emptyWorld))"
    using first s0 u by (simp add: maxAttempts_def)
  have w1: "snd (snd (downloadLoop (exampleEnv rateLimitTwice) exampleJob 1 None Map.empty
        emptyWorld)) =
      Attempt 1 exampleUrl Map.empty # Wait 10000
        # snd (snd (downloadLoop (exampleEnv rateLimitTwice) exampleJob 2 None Map.empty
                      emptyWorld))"
    using second s1 u by (simp add: maxAttempts_def numeral_2_eq_2)
  have loop: "snd (snd (downloadLoop (exampleEnv rateLimitTwice) exampleJob 0 None Map.empty
        emptyWorld)) =
       [Attempt 0 exampleUrl Map.empty, Wait 5000,
        Attempt 1 exampleUrl Map.empty, Wait 10000,
        Attempt 2 exampleUrl Map.empty]"
    unfolding w0 w1 l2 by simp
  show ?thesis
    by (intro conjI d m1 m2 run r0 r1 rl rm s0 s1 loop f) simp
qed

section \<open>Properties of the folder listing\<close>

lemma entriesLoop_eq:
  "fileCount \<le> MAX_FILES_PER_FOLDER \<Longrightarrow>
     entriesLoop newURL html entries fileCount =
       (entries @ take (MAX_FILES_PER_FOLDER - fileCount) (pageEntries newURL html),
        min MAX_FILES_PER_FOLDER (fileCount + length (pageEntries newURL html)))"
proof (induction newURL html entries fileCount rule: entriesLoop.induct)
  case (1 newURL html entries fileCount)
  show ?case
  proof (cases "search entryMatcher html")
    case None
    then show ?thesis
      using "1.prems"
      by (subst entriesLoop.simps, subst (1 2) pageEntries_def, subst (1 2) execAll.simps)
         (simp add: map_filter_simps)
  next
    case (Some mr)
    obtain m rest where mr: "mr = (m, rest)" by (cases mr)
    have pe: "pageEntries newURL html =
        (case entryOfMatch newURL m of None \<Rightarrow> pageEntries newURL rest
         | Some entry \<Rightarrow> entry # pageEntries newURL rest)"
      unfolding pageEntries_def
      by (subst execAll.simps) (simp add: Some mr map_filter_simps split: option.splits)
    show ?thesis
    proof (cases "fileCount < MAX_FILES_PER_FOLDER")
      case False
      with "1.prems" have "fileCount = MAX_FILES_PER_FOLDER" by simp
      then show ?thesis
        by (subst entriesLoop.simps) (simp add: Some mr)
    next
      case True
      show ?thesis
      proof (cases "entryOfMatch newURL m")
        case None
        have "entriesLoop newURL html entries fileCount = entriesLoop newURL rest entries fileCount"
          by (subst entriesLoop.simps) (simp add: Some mr True None)
        also have "\<dots> = (entries @ take (MAX_FILES_PER_FOLDER - fileCount) (pageEntries newURL rest),
            min MAX_FILES_PER_FOLDER (fileCount + length (pageEntries newURL rest)))"
          using "1.prems" by (intro "1.IH"(1) [OF Some mr [symmetric] True None])
        finally show ?thesis by (simp add: pe None)
      next
        case (Some entry)
        have "entriesLoop newURL html entries fileCount =
            entriesLoop newURL rest (entries @ [entry]) (fileCount + 1)"
          by (subst entriesLoop.simps) (simp add: \<open>search entryMatcher html = Some mr\<close> mr True Some)
        also have "\<dots> = ((entries @ [entry])
              @ take (MAX_FILES_PER_FOLDER - (fileCount + 1)) (pageEntries newURL rest),
            min MAX_FILES_PER_FOLDER (fileCount + 1 + length (pageEntries newURL rest)))"
          using True
          by (intro "1.IH"(2) [OF \<open>search entryMatcher html = Some mr\<close> mr [symmetric] True Some])
             simp
        finally show ?thesis
          using True by (simp add: pe Some take_Cons' )
      qed
    qed
  qed
qed

lemma folderEntriesOfPage_eq:
  "folderEntriesOfPage newURL quiet html =
     (take MAX_FILES_PER_FOLDER (pageEntries newURL html),
      if MAX_FILES_PER_FOLDER \<le> length (pageEntries newURL html) \<and> \<not> quiet
      then [''Warning: Folder contains more than '' @ decimal MAX_FILES_PER_FOLDER
            @ '' files. Only the first '' @ decimal MAX_FILES_PER_FOLDER
            @ '' will be downloaded.'']
      else [])"
  by (simp add: folderEntriesOfPage_def entriesLoop_eq)

lemma lazy_hit: "k acc s = Some r \<Longrightarrow> lazy cls k acc s = Some r"
  by (cases s) simp_all

lemma lazy_append:
  assumes "\<forall>c \<in> set x. cls c"
    and "\<And>j. j < length x \<Longrightarrow> k (acc @ take j x) (drop j x @ s) = None"
  shows "lazy cls k acc (x @ s) = lazy cls k (acc @ x) s"
  using assms
proof (induction x arbitrary: acc)
  case Nil
  show ?case by simp
next
  case (Cons c cs)
  have here: "k acc (c # cs @ s) = None"
    using Cons.prems(2) [of 0] by simp
  have "lazy cls k (acc @ [c]) (cs @ s) = lazy cls k ((acc @ [c]) @ cs) s"
  proof (rule Cons.IH)
    show "\<forall>c \<in> set cs. cls c" using Cons.prems(1) by simp
    fix j assume "j < length cs"
    then show "k ((acc @ [c]) @ take j cs) (drop j cs @ s) = None"
      using Cons.prems(2) [of "Suc j"] by simp
  qed
  then show ?case using here Cons.prems(1) by simp
qed

lemma lit_mismatch: "\<not> prefix p s \<Longrightarrow> lit p k s = None"
  by (simp add: lit_def)

lemma greedy_run:
  assumes "p \<noteq> []" and "\<not> cls (hd p)" and "\<forall>c \<in> set x. cls c" and "n \<le> length x"
  shows "greedy cls n (\<lambda>g. lit p (k g)) [] (x @ p @ s) = k x s"
proof -
  have tw: "takeWhile cls (x @ p @ s) = x" and dw: "dropWhile cls (x @ p @ s) = p @ s"
    using assms(1,2,3) run_split [of cls "x @ p @ s" x "p @ s"] by (cases p, auto)+
  have "greedy cls n (\<lambda>g. lit p (k g)) [] (x @ p @ s) =
      (if n \<le> length ([]::string) + length (takeWhile cls (x @ p @ s))
       then lit p (k ([] @ takeWhile cls (x @ p @ s))) (dropWhile cls (x @ p @ s)) else None)"
    by (rule greedy_closed) (rule lit_closed [where cls = cls, OF assms(1,2)])
  also have "\<dots> = k x s"
    unfolding tw dw using assms(4) by (simp add: lit_def)
  finally show ?thesis .
qed

lemma entryMatcher_block:
  assumes "i \<noteq> []" "CHR 0x22 \<notin> set i" "h \<noteq> []" "CHR 0x22 \<notin> set h"
    and "CHR ''<'' \<notin> set t" "CHR 0x0A \<notin> set t" "CHR 0x0D \<notin> set t"
  shows "entryMatcher (renderEntry (i, h, t) @ s) = Some ((i, h, t), ''</a></div>'' @ s)"
proof -
  define D where "D g1 g2 = lazy dotChar (\<lambda>g3. lit ''</div>''
      (\<lambda>rest. Some ((g1, g2, g3), rest))) []" for g1 g2 :: string
  define C where "C g1 g2 = lazy anyChar (\<lambda>_. lit ''<div class=\"flip-entry-title\">'' (D g1 g2)) []"
    for g1 g2 :: string
  define B where "B g1 g2 = greedy notGt 0 (\<lambda>_. lit ''>'' (C g1 g2)) []" for g1 g2 :: string
  define G where "G g1 = greedy notQuote 1 (\<lambda>g2. lit ''\"'' (B g1 g2)) []" for g1 :: string
  define A where "A g1 = lazy anyChar (\<lambda>_. lit ''<a href=\"'' (G g1)) []" for g1 :: string
  have em: "entryMatcher =
      lit ''<div class=\"flip-entry\" id=\"entry-'' (greedy notQuote 1 (\<lambda>g1. lit ''\"'' (A g1)) [])"
    unfolding entryMatcher_def A_def G_def B_def C_def D_def by (rule refl)
  let ?tail = "''</a></div>'' @ s"
  have d: "D i h (t @ ''</div>'' @ ?tail) = Some ((i, h, t), ?tail)"
  proof -
    let ?k = "\<lambda>g3. lit ''</div>'' (\<lambda>rest. Some ((i, h, g3), rest))"
    have "lazy dotChar ?k [] (t @ ''</div>'' @ ?tail) = lazy dotChar ?k ([] @ t) (''</div>'' @ ?tail)"
    proof (rule lazy_append)
      show "\<forall>c \<in> set t. dotChar c" using assms(6,7) by (auto simp: dotChar_def)
      fix j assume j: "j < length t"
      then have "drop j t \<noteq> []" by simp
      then obtain c cs where c: "drop j t = c # cs" by (cases "drop j t") auto
      then have "c \<in> set t" by (metis in_set_dropD list.set_intros(1))
      with assms(5) have "c \<noteq> CHR ''<''" by auto
      then show "?k ([] @ take j t) (drop j t @ ''</div>'' @ ?tail) = None"
        using c by (simp add: lit_def)
    qed
    also have "\<dots> = Some ((i, h, t), ?tail)"
      by (rule lazy_hit) (simp add: lit_def)
    finally show ?thesis unfolding D_def .
  qed
  have c: "C i h (''<div class=\"flip-entry-title\">'' @ t @ ''</div>'' @ ?tail) =
      Some ((i, h, t), ?tail)"
    unfolding C_def by (rule lazy_hit) (simp add: lit_def d [simplified])
  have b: "B i h (''>'' @ ''<div class=\"flip-entry-title\">'' @ t @ ''</div>'' @ ?tail) =
      Some ((i, h, t), ?tail)"
  proof -
    have "B i h ([] @ ''>'' @ ''<div class=\"flip-entry-title\">'' @ t @ ''</div>'' @ ?tail) =
        C i h (''<div class=\"flip-entry-title\">'' @ t @ ''</div>'' @ ?tail)"
      unfolding B_def by (rule greedy_run) (simp_all add: notGt_def)
    with c show ?thesis by simp
  qed
  have g: "G i (h @ ''\"'' @ ''>'' @ ''<div class=\"flip-entry-title\">'' @ t @ ''</div>'' @ ?tail) =
      Some ((i, h, t), ?tail)"
  proof -
    have "G i (h @ ''\"'' @ ''>'' @ ''<div class=\"flip-entry-title\">'' @ t @ ''</div>'' @ ?tail) =
        B i h (''>'' @ ''<div class=\"flip-entry-title\">'' @ t @ ''</div>'' @ ?tail)"
      unfolding G_def using assms(3,4)
      by (intro greedy_run [where k = "B i"]) (auto simp: notQuote_def one_le_length)
    with b show ?thesis by simp
  qed
  have a: "A i (''>'' @ ''<a href=\"'' @ h @ ''\"'' @ ''>'' @ ''<div class=\"flip-entry-title\">''
        @ t @ ''</div>'' @ ?tail) = Some ((i, h, t), ?tail)"
  proof -
    let ?k = "\<lambda>_::string. lit ''<a href=\"'' (G i)"
    let ?r = "''<a href=\"'' @ h @ ''\"'' @ ''>'' @ ''<div class=\"flip-entry-title\">''
        @ t @ ''</div>'' @ ?tail"
    have "lazy anyChar ?k [] (''>'' @ ?r) = lazy anyChar ?k ([] @ ''>'') ?r"
      by (rule lazy_append) (simp_all add: anyChar_def lit_def)
    also have "\<dots> = Some ((i, h, t), ?tail)"
      by (rule lazy_hit) (simp add: lit_def g [simplified])
    finally show ?thesis unfolding A_def .
  qed
  have "entryMatcher (renderEntry (i, h, t) @ s) =
      greedy notQuote 1 (\<lambda>g1. lit ''\"'' (A g1)) []
        (i @ ''\"'' @ ''>'' @ ''<a href=\"'' @ h @ ''\"'' @ ''>'' @ ''<div class=\"flip-entry-title\">''
        @ t @ ''</div>'' @ ?tail)"
    unfolding em by (simp add: renderEntry_def lit_def)
  also have "\<dots> = A i (''>'' @ ''<a href=\"'' @ h @ ''\"'' @ ''>'' @ ''<div class=\"flip-entry-title\">''
        @ t @ ''</div>'' @ ?tail)"
    using assms(1,2)
    by (intro greedy_run [where k = A]) (auto simp: notQuote_def one_le_length)
  also note a
  finally show ?thesis .
qed

lemma search_skip_close_tags:
  "search entryMatcher (''</a></div>'' @ s) = search entryMatcher s"
proof -
  have "entryMatcher (c # r) = None" if "c \<noteq> CHR ''<''" for c r
    using that by (simp add: entryMatcher_def lit_def)
  moreover have "entryMatcher (CHR ''<'' # CHR ''/'' # r) = None" for r
    by (simp add: entryMatcher_def lit_def)
  ultimately show ?thesis by simp
qed

lemma execAll_block:
  assumes "i \<noteq> []" "CHR 0x22 \<notin> set i" "h \<noteq> []" "CHR 0x22 \<notin> set h"
    and "CHR ''<'' \<notin> set t" "CHR 0x0A \<notin> set t" "CHR 0x0D \<notin> set t"
  shows "execAll (renderEntry (i, h, t) @ s) = (i, h, t) # execAll s"
proof -
  obtain c r where cr: "renderEntry (i, h, t) @ s = c # r"
    by (cases "renderEntry (i, h, t) @ s") (auto simp: renderEntry_def)
  have "search entryMatcher (renderEntry (i, h, t) @ s) = Some ((i, h, t), ''</a></div>'' @ s)"
    using entryMatcher_block [OF assms, of s] unfolding cr by simp
  then have "execAll (renderEntry (i, h, t) @ s) = (i, h, t) # execAll (''</a></div>'' @ s)"
    by (subst execAll.simps) simp
  also have "execAll (''</a></div>'' @ s) = execAll s"
    by (subst (1 2) execAll.simps) (simp only: search_skip_close_tags)
  finally show ?thesis .
qed

lemma execAll_syntheticPage:
  assumes "\<forall>e \<in> set es. wellFormedEntry newURL e"
  shows "execAll (syntheticPage es) = es"
  using assms
proof (induction es)
  case Nil
  show ?case
    by (subst execAll.simps) (simp add: syntheticPage_def entryMatcher_def lit_def)
next
  case (Cons e es)
  obtain i h t where e: "e = (i, h, t)" by (cases e)
  have "execAll (renderEntry (i, h, t) @ syntheticPage es) = (i, h, t) # execAll (syntheticPage es)"
    using Cons.prems by (intro execAll_block) (simp_all add: e wellFormedEntry_def)
  with Cons show ?case by (simp add: syntheticPage_def e)
qed

lemma pageEntries_syntheticPage:
  assumes "\<forall>e \<in> set es. wellFormedEntry newURL e"
  shows "pageEntries newURL (syntheticPage es) = map (\<lambda>e. the (entryOfMatch newURL e)) es"
proof -
  have "List.map_filter (entryOfMatch newURL) es = map (\<lambda>e. the (entryOfMatch newURL e)) es"
    using assms
    by (induction es) (auto simp: map_filter_simps wellFormedEntry_def split: option.splits)
  then show ?thesis
    using execAll_syntheticPage [OF assms] by (simp add: pageEntries_def)
qed

text \<open>
  Claim C6, as the code has it. For every listing page \<^verbatim>\<open>fetchDriveFolderEntries\<close> yields at
  most 50 entries: the first 50 of the entries of the page, in page order. For a page of
  60 well-formed entry blocks these are the entries of the first 50 blocks. Unless
  \<^verbatim>\<open>quiet\<close> is set, one warning is printed when the page holds more than 50 entries; no
  warning is printed when \<^verbatim>\<open>quiet\<close> is set or the page holds fewer than 50 entries.
\<close>

theorem C6_folder_entries_capped:
  "length (fst (folderEntriesOfPage newURL quiet html)) \<le> 50
   \<and> fst (folderEntriesOfPage newURL quiet html) = take 50 (pageEntries newURL html)
   \<and> ((\<forall>e \<in> set es. wellFormedEntry newURL e) \<and> length es = 60 \<longrightarrow>
        fst (folderEntriesOfPage newURL quiet (syntheticPage es)) =
          map (\<lambda>e. the (entryOfMatch newURL e)) (take 50 es)
        \<and> length (fst (folderEntriesOfPage newURL quiet (syntheticPage es))) = 50)
   \<and> (\<not> quiet \<and> 50 < length (pageEntries newURL html) \<longrightarrow>
        length (snd (folderEntriesOfPage newURL quiet html)) = 1)
   \<and> (quiet \<or> length (pageEntries newURL html) < 50 \<longrightarrow>
        snd (folderEntriesOfPage newURL quiet html) = [])"
proof (intro conjI impI)
  show "length (fst (folderEntriesOfPage newURL quiet html)) \<le> 50"
    by (simp add: folderEntriesOfPage_eq MAX_FILES_PER_FOLDER_def)
  show "fst (folderEntriesOfPage newURL quiet html) = take 50 (pageEntries newURL html)"
    by (simp add: folderEntriesOfPage_eq MAX_FILES_PER_FOLDER_def)
next
  assume a: "(\<forall>e \<in> set es. wellFormedEntry newURL e) \<and> length es = 60"
  then have "pageEntries newURL (syntheticPage es) = map (\<lambda>e. the (entryOfMatch newURL e)) es"
    by (intro pageEntries_syntheticPage) simp
  then show "fst (folderEntriesOfPage newURL quiet (syntheticPage es)) =
          map (\<lambda>e. the (entryOfMatch newURL e)) (take 50 es)"
    and "length (fst (folderEntriesOfPage newURL quiet (syntheticPage es))) = 50"
    using a by (simp_all add: folderEntriesOfPage_eq MAX_FILES_PER_FOLDER_def take_map)
next
  assume "\<not> quiet \<and> 50 < length (pageEntries newURL html)"
  then show "length (snd (folderEntriesOfPage newURL quiet html)) = 1"
    by (simp add: folderEntriesOfPage_eq MAX_FILES_PER_FOLDER_def)
next
  assume "quiet \<or> length (pageEntries newURL html) < 50"
  then show "snd (folderEntriesOfPage newURL quiet html) = []"
    by (auto simp: folderEntriesOfPage_eq MAX_FILES_PER_FOLDER_def)
qed

lemma replaceAll_absent:
  "p \<noteq> [] \<Longrightarrow> hd p \<notin> set s \<Longrightarrow> replaceAll p r s = s"
proof (induction s)
  case Nil
  show ?case by (subst replaceAll.simps) simp
next
  case (Cons c cs)
  then have "\<not> prefix p (c # cs)" by (cases p) auto
  with Cons show ?case by (subst replaceAll.simps) simp
qed

lemma decodeHtmlEntities_plain: "CHR ''&'' \<notin> set s \<Longrightarrow> decodeHtmlEntities s = s"
  by (simp add: decodeHtmlEntities_def replaceAll_absent)

lemma exampleListing_entries:
  "entryOfMatch exampleNewURL
     (''FILE1'', ''https://drive.google.com/file/d/FILE1/view'', ''report.pdf'') =
     Some \<lparr>fe_id = ''FILE1'', fe_name = ''report.pdf'', fe_type = File, fe_resourceKey = None\<rparr>"
  "entryOfMatch exampleNewURL
     (''DIR1'', ''https://drive.google.com/drive/folders/DIR1'', ''Photos'') =
     Some \<lparr>fe_id = ''DIR1'', fe_name = ''Photos'', fe_type = Folder, fe_resourceKey = None\<rparr>"
  by (simp_all add: entryOfMatch_def decodeHtmlEntities_plain classifyDriveHref_def
        exampleNewURL_def parser_eval truthy_def trim_def isWhiteSpace_def)

lemma exampleListing_wellFormed: "\<forall>e \<in> set exampleListing. wellFormedEntry exampleNewURL e"
  by (auto simp: exampleListing_def wellFormedEntry_def exampleListing_entries)

text \<open>
  The claim as stated fails where \<^verbatim>\<open>quiet\<close> is set: a page of 60 entries yields its first
  50 entries and no warning.
\<close>

theorem C6_counterexample:
  "length (pageEntries exampleNewURL (syntheticPage exampleListing)) = 60
   \<and> length (fst (folderEntriesOfPage exampleNewURL True (syntheticPage exampleListing))) = 50
   \<and> snd (folderEntriesOfPage exampleNewURL True (syntheticPage exampleListing)) = []"
  using pageEntries_syntheticPage [OF exampleListing_wellFormed]
  by (simp add: folderEntriesOfPage_eq MAX_FILES_PER_FOLDER_def exampleListing_def)

theorem C6_folder_entries_witness:
  "length exampleListing = 60
   \<and> fst (folderEntriesOfPage exampleNewURL False (syntheticPage exampleListing)) =
       replicate 30 \<lparr>fe_id = ''FILE1'', fe_name = ''report.pdf'', fe_type = File,
                     fe_resourceKey = None\<rparr>
       @ replicate 20 \<lparr>fe_id = ''DIR1'', fe_name = ''Photos'', fe_type = Folder,
                       fe_resourceKey = None\<rparr>
   \<and> length (snd (folderEntriesOfPage exampleNewURL False (syntheticPage exampleListing))) = 1
   \<and> snd (folderEntriesOfPage exampleNewURL False []) = []"
proof -
  have len: "length exampleListing = 60" by (simp add: exampleListing_def)
  have pe: "length (pageEntries exampleNewURL (syntheticPage exampleListing)) = 60"
    using pageEntries_syntheticPage [OF exampleListing_wellFormed] len by simp
  have empty: "pageEntries exampleNewURL [] = []"
    unfolding pageEntries_def
    by (subst execAll.simps) (simp add: entryMatcher_def lit_def map_filter_simps)
  have "fst (folderEntriesOfPage exampleNewURL False (syntheticPage exampleListing)) =
      map (\<lambda>e. the (entryOfMatch exampleNewURL e)) (take 50 exampleListing)"
    and "length (snd (folderEntriesOfPage exampleNewURL False (syntheticPage exampleListing))) = 1"
    and "snd (folderEntriesOfPage exampleNewURL False []) = []"
    using C6_folder_entries_capped [of exampleNewURL False "syntheticPage exampleListing"
        exampleListing]
      C6_folder_entries_capped [of exampleNewURL False "[]" exampleListing]
      exampleListing_wellFormed len pe empty
    by simp_all
  then show ?thesis
    using len by (simp add: exampleListing_def exampleListing_entries)
qed

end
